theory Spec2Isabelle
  imports Complex_Main "HOL-Library.AList" "HOL-Library.Multiset"
begin

section \<open>Rayment: price calculation, payment, polling and batch rendering\<close>

text \<open>
  A shallow embedding of the client SDK (\<^verbatim>\<open>RaymentClient\<close>) and of the Solana payment
  utilities (\<^verbatim>\<open>utils/solana.ts\<close>).

  Conventions of the embedding:
  \<^item> a JavaScript \<^verbatim>\<open>number\<close> that carries an amount of SOL, a size, a count of frames or a
    duration in seconds is an IEEE-754 binary64 value of the type \<open>number\<close> below, and every
    arithmetic operation rounds its exact result to the nearest double;
  \<^item> millisecond time stamps and intervals, integers far below \<open>2 ^ 53\<close> on which doubles
    compute exactly, are \<^typ>\<open>int\<close>;
  \<^item> a thrown \<^verbatim>\<open>Error\<close> is the value \<open>Inl msg\<close> of a sum type, \<open>msg\<close> being
    \<^verbatim>\<open>error.message\<close>;
  \<^item> the answers of the remote parties (hub, Solana RPC, file system) are parameters of
    the functions that consume them.
\<close>

subsection \<open>JavaScript numbers\<close>

text \<open>
  A \<open>number\<close> is \<^verbatim>\<open>NaN\<close>, one of the two infinities, or a finite double, carried as the
  real that it denotes. The two zeros are one value: none of the embedded functions divides
  by a variable or otherwise tells \<open>-0\<close> from \<open>0\<close>.

  \<open>fl x\<close> is the double nearest to the real \<open>x\<close>, a tie going to the even mantissa. With
  \<open>k = binade x\<close> the exponent of \<open>x\<close>, that is \<open>2 powi k \<le> \<bar>x\<bar> < 2 powi (k + 1)\<close>, the doubles
  around \<open>x\<close> are the multiples of \<open>2 powi (k - 52)\<close>, and of \<open>2 powi (- 1074)\<close> in the
  subnormal range; a result beyond \<^verbatim>\<open>Number.MAX_VALUE\<close> is an infinity. A decimal literal
  \<^verbatim>\<open>0.001\<close> of the source is \<open>fl 0.001\<close>. An argument \<open>Fin x\<close> of an embedded function stands
  for the double \<open>x\<close>.
\<close>

datatype number = NaN | PosInf | NegInf | Fin real

function binade :: "real \<Rightarrow> int" where
  "binade x = (if x = 0 then 0
               else if 2 \<le> \<bar>x\<bar> then binade (x / 2) + 1
               else if \<bar>x\<bar> < 1 then binade (x * 2) - 1
               else 0)"
  by pat_completeness auto
termination
proof (relation "measure (\<lambda>x. nat \<bar>\<lfloor>log 2 \<bar>x\<bar>\<rfloor>\<bar>)")
  show "wf (measure (\<lambda>x. nat \<bar>\<lfloor>log 2 \<bar>x\<bar>\<rfloor>\<bar>))"
    by simp
next
  fix x :: real
  assume "x \<noteq> 0" "2 \<le> \<bar>x\<bar>"
  then have "log 2 \<bar>x / 2\<bar> = log 2 \<bar>x\<bar> - 1"
    by (simp add: log_divide)
  moreover have "1 \<le> log 2 \<bar>x\<bar>"
    using \<open>2 \<le> \<bar>x\<bar>\<close> by (simp add: le_log_iff)
  ultimately show "(x / 2, x) \<in> measure (\<lambda>x. nat \<bar>\<lfloor>log 2 \<bar>x\<bar>\<rfloor>\<bar>)"
    by auto
next
  fix x :: real
  assume "x \<noteq> 0" "\<not> 2 \<le> \<bar>x\<bar>" "\<bar>x\<bar> < 1"
  define f where "f = \<lfloor>log 2 \<bar>x\<bar>\<rfloor>"
  have "log 2 \<bar>x * 2\<bar> = log 2 \<bar>x\<bar> + 1"
    using \<open>x \<noteq> 0\<close> by (simp add: log_mult abs_mult)
  then have 1: "\<lfloor>log 2 \<bar>x * 2\<bar>\<rfloor> = f + 1"
    by (simp add: f_def)
  have "log 2 \<bar>x\<bar> < 0"
    using \<open>\<bar>x\<bar> < 1\<close> \<open>x \<noteq> 0\<close> by simp
  then have "f < 0"
    unfolding f_def by (simp add: floor_less_iff)
  then have "nat \<bar>f + 1\<bar> < nat \<bar>f\<bar>"
    by linarith
  then show "(x * 2, x) \<in> measure (\<lambda>x. nat \<bar>\<lfloor>log 2 \<bar>x\<bar>\<rfloor>\<bar>)"
    unfolding in_measure 1 f_def .
qed

declare binade.simps [simp del]

definition rne :: "real \<Rightarrow> int" where
  \<comment> \<open>The nearest integer, a tie going to the even one.\<close>
  "rne t = (let f = \<lfloor>t\<rfloor>; r = t - of_int f
            in if r < 1 / 2 then f else if 1 / 2 < r then f + 1
               else if even f then f else f + 1)"

definition quantum :: "real \<Rightarrow> real" where
  \<comment> \<open>The distance of two neighbouring doubles in the binade of \<open>x\<close>.\<close>
  "quantum x = 2 powi (max (binade x - 52) (- 1074))"

definition fl_fin :: "real \<Rightarrow> real" where
  "fl_fin x = of_int (rne (x / quantum x)) * quantum x"

definition MAX_VALUE :: real where
  \<comment> \<open>\<^verbatim>\<open>Number.MAX_VALUE\<close>, the largest finite double.\<close>
  "MAX_VALUE = (2 ^ 53 - 1) * 2 ^ 971"

definition fl :: "real \<Rightarrow> number" where
  "fl x = (let y = fl_fin x
           in if MAX_VALUE < y then PosInf else if y < - MAX_VALUE then NegInf else Fin y)"


fun num_add :: "number \<Rightarrow> number \<Rightarrow> number" where
  \<comment> \<open>\<^verbatim>\<open>a + b\<close>\<close>
  "num_add (Fin x) (Fin y) = fl (x + y)"
| "num_add NaN b = NaN"
| "num_add a NaN = NaN"
| "num_add PosInf NegInf = NaN"
| "num_add NegInf PosInf = NaN"
| "num_add PosInf b = PosInf"
| "num_add NegInf b = NegInf"
| "num_add (Fin x) b = b"


fun times_inf :: "bool \<Rightarrow> number \<Rightarrow> number" where
  \<comment> \<open>The product of an infinity, positive or not, and a number.\<close>
  "times_inf pos (Fin x) = (if x = 0 then NaN else if (0 < x) = pos then PosInf else NegInf)"
| "times_inf pos PosInf = (if pos then PosInf else NegInf)"
| "times_inf pos NegInf = (if pos then NegInf else PosInf)"
| "times_inf pos NaN = NaN"

fun num_mul :: "number \<Rightarrow> number \<Rightarrow> number" where
  \<comment> \<open>\<^verbatim>\<open>a * b\<close>\<close>
  "num_mul (Fin x) (Fin y) = fl (x * y)"
| "num_mul NaN b = NaN"
| "num_mul PosInf b = times_inf True b"
| "num_mul NegInf b = times_inf False b"
| "num_mul (Fin x) PosInf = times_inf True (Fin x)"
| "num_mul (Fin x) NegInf = times_inf False (Fin x)"
| "num_mul (Fin x) NaN = NaN"

fun num_div :: "number \<Rightarrow> real \<Rightarrow> number" where
  \<comment> \<open>\<^verbatim>\<open>a / d\<close> for a positive divisor that is a double, as are all by which the source
      divides: \<^verbatim>\<open>1024\<close>, \<^verbatim>\<open>100\<close>, \<^verbatim>\<open>1000000\<close>, \<^verbatim>\<open>LAMPORTS_PER_SOL\<close> and the length of a
      non-empty array.\<close>
  "num_div (Fin x) d = fl (x / d)"
| "num_div n d = n"

fun Math_max :: "number \<Rightarrow> number \<Rightarrow> number" where
  \<comment> \<open>\<^verbatim>\<open>Math.max(a, b)\<close>: \<^verbatim>\<open>NaN\<close> if an argument is \<^verbatim>\<open>NaN\<close>.\<close>
  "Math_max (Fin x) (Fin y) = Fin (max x y)"
| "Math_max NaN b = NaN"
| "Math_max a NaN = NaN"
| "Math_max PosInf b = PosInf"
| "Math_max a PosInf = PosInf"
| "Math_max NegInf b = b"
| "Math_max a NegInf = a"

fun Math_round :: "number \<Rightarrow> number" where
  \<comment> \<open>\<^verbatim>\<open>Math.round\<close>: the nearest integer, a tie going towards plus infinity; the result is
      computed exactly, and it is a double whenever the argument is one.\<close>
  "Math_round (Fin x) = Fin (of_int \<lfloor>x + 1 / 2\<rfloor>)"
| "Math_round n = n"

fun num_less :: "number \<Rightarrow> number \<Rightarrow> bool" where
  \<comment> \<open>\<^verbatim>\<open>a < b\<close>: every comparison with \<^verbatim>\<open>NaN\<close> is false.\<close>
  "num_less (Fin x) (Fin y) \<longleftrightarrow> x < y"
| "num_less NaN b \<longleftrightarrow> False"
| "num_less a NaN \<longleftrightarrow> False"
| "num_less PosInf b \<longleftrightarrow> False"
| "num_less a NegInf \<longleftrightarrow> False"
| "num_less NegInf b \<longleftrightarrow> True"
| "num_less a PosInf \<longleftrightarrow> True"

fun num_le :: "number \<Rightarrow> number \<Rightarrow> bool" where
  \<comment> \<open>\<^verbatim>\<open>a <= b\<close>\<close>
  "num_le (Fin x) (Fin y) \<longleftrightarrow> x \<le> y"
| "num_le NaN b \<longleftrightarrow> False"
| "num_le a NaN \<longleftrightarrow> False"
| "num_le NegInf b \<longleftrightarrow> True"
| "num_le a PosInf \<longleftrightarrow> True"
| "num_le PosInf b \<longleftrightarrow> False"
| "num_le a NegInf \<longleftrightarrow> False"

definition at_least :: "real \<Rightarrow> number \<Rightarrow> bool" where
  \<comment> \<open>The number is not \<^verbatim>\<open>NaN\<close> and the real \<open>x\<close> is at most its exact value.\<close>
  "at_least x n = (case n of Fin y \<Rightarrow> x \<le> y | PosInf \<Rightarrow> True | _ \<Rightarrow> False)"

definition near :: "real \<Rightarrow> number \<Rightarrow> real \<Rightarrow> bool" where
  \<comment> \<open>The number is finite and its exact value is within \<open>eps\<close> of the real \<open>x\<close>.\<close>
  "near eps n x = (case n of Fin y \<Rightarrow> \<bar>y - x\<bar> \<le> eps | _ \<Rightarrow> False)"

subsection \<open>Price breakdown (\<^verbatim>\<open>utils/solana.ts\<close>, \<^verbatim>\<open>calculatePrice\<close>)\<close>

record ProviderPricing =
  pricePerFrame :: number
  pricePerSecond :: number
  pricePerGb :: number
  minimumPrice :: number

record JobInfo =
  fileSizeMb :: number
  frameCount :: number
  estimatedRenderSeconds :: number

record PriceBreakdown =
  basePrice :: number
  fileSizeFee :: number
  frameFee :: number
  estimatedRenderFee :: number
  platformFee :: number
  total :: number

definition calculatePrice :: "ProviderPricing \<Rightarrow> JobInfo \<Rightarrow> number \<Rightarrow> PriceBreakdown" where
  "calculatePrice pricing jobInfo platformFeePercent =
     (let fileSizeFee' = num_mul (num_div (fileSizeMb jobInfo) 1024) (pricePerGb pricing);
          frameFee' = num_mul (frameCount jobInfo) (pricePerFrame pricing);
          estimatedRenderFee' = num_mul (estimatedRenderSeconds jobInfo) (pricePerSecond pricing);
          subtotal = num_add (num_add fileSizeFee' frameFee') estimatedRenderFee';
          basePrice' = Math_max subtotal (minimumPrice pricing);
          platformFee' = num_mul basePrice' (num_div platformFeePercent 100);
          total' = num_add basePrice' platformFee'
      in \<lparr> basePrice = basePrice',
           fileSizeFee = fileSizeFee',
           frameFee = frameFee',
           estimatedRenderFee = estimatedRenderFee',
           platformFee = platformFee',
           total = num_div (Math_round (num_mul total' (Fin 1000000))) 1000000 \<rparr>)"

definition calculatePrice_default :: "ProviderPricing \<Rightarrow> JobInfo \<Rightarrow> PriceBreakdown" where
  \<comment> \<open>The default argument \<^verbatim>\<open>platformFeePercent: number = 5\<close>.\<close>
  "calculatePrice_default pricing jobInfo = calculatePrice pricing jobInfo (Fin 5)"

definition total_for_base :: "number \<Rightarrow> number \<Rightarrow> number" where
  \<comment> \<open>The last three statements of \<^verbatim>\<open>calculatePrice\<close> as a function of the base price: the
      total that is returned for a base price and a fee percentage.\<close>
  "total_for_base base platformFeePercent =
     (let platformFee' = num_mul base (num_div platformFeePercent 100);
          total' = num_add base platformFee'
      in num_div (Math_round (num_mul total' (Fin 1000000))) 1000000)"

subsection \<open>Cost estimate of the client (\<^verbatim>\<open>RaymentClient.estimateCost\<close>)\<close>

text \<open>
  The arithmetic of \<^verbatim>\<open>estimateCost\<close>, after the provider has been fetched. The option
  \<^verbatim>\<open>frameCount\<close> may be absent; \<^verbatim>\<open>options.frameCount || 1\<close> replaces an absent value, \<open>0\<close> and
  \<^verbatim>\<open>NaN\<close> by \<open>1\<close>.
\<close>

definition estimateCost :: "ProviderPricing \<Rightarrow> number \<Rightarrow> number option \<Rightarrow> PriceBreakdown" where
  "estimateCost pricing fileSizeMb' frameCountOpt =
     (let frameCount' = (case frameCountOpt of None \<Rightarrow> Fin 1
                         | Some n \<Rightarrow> if n = Fin 0 \<or> n = NaN then Fin 1 else n);
          estimatedSeconds = Fin 60;
          fileSizeFee' = num_mul (num_div fileSizeMb' 1024) (pricePerGb pricing);
          frameFee' = num_mul frameCount' (pricePerFrame pricing);
          estimatedRenderFee' = num_mul estimatedSeconds (pricePerSecond pricing);
          subtotal = num_add (num_add fileSizeFee' frameFee') estimatedRenderFee';
          basePrice' = Math_max subtotal (minimumPrice pricing);
          platformFee' = num_mul basePrice' (fl 0.05);
          total' = num_add basePrice' platformFee'
      in \<lparr> basePrice = basePrice',
           fileSizeFee = fileSizeFee',
           frameFee = frameFee',
           estimatedRenderFee = estimatedRenderFee',
           platformFee = platformFee',
           total = total' \<rparr>)"

subsection \<open>The price estimate as the specification words it\<close>

text \<open>
  Written from the specification, to be compared with \<^const>\<open>calculatePrice\<close>:
  \<open>basePrice = max (sizeFee + workFee + timeFee) minimumPrice\<close>, the fee is the base price
  times the rate, the total is rounded to six decimal places, once, at the end, and every
  other field is unrounded. \<open>round6\<close> is that rounding on the reals, \<open>num_round6\<close> the same
  on doubles. The specification's total \<open>basePrice * (1 + rate)\<close> is, in doubles, not the sum
  of the base price and the fee; \<open>spec_estimate\<close> rounds the sum.
\<close>

definition round6 :: "real \<Rightarrow> real" where
  "round6 x = of_int \<lfloor>x * 10 ^ 6 + 1 / 2\<rfloor> / 10 ^ 6"

definition num_round6 :: "number \<Rightarrow> number" where
  "num_round6 x = num_div (Math_round (num_mul x (Fin 1000000))) 1000000"

definition spec_estimate :: "ProviderPricing \<Rightarrow> JobInfo \<Rightarrow> number \<Rightarrow> PriceBreakdown" where
  "spec_estimate tariff chars feeRate =
     (let sizeFee = num_mul (num_div (fileSizeMb chars) 1024) (pricePerGb tariff);
          workFee = num_mul (frameCount chars) (pricePerFrame tariff);
          timeFee = num_mul (estimatedRenderSeconds chars) (pricePerSecond tariff);
          base = Math_max (num_add (num_add sizeFee workFee) timeFee) (minimumPrice tariff)
      in \<lparr> basePrice = base,
           fileSizeFee = sizeFee,
           frameFee = workFee,
           estimatedRenderFee = timeFee,
           platformFee = num_mul base feeRate,
           total = num_round6 (num_add base (num_mul base feeRate)) \<rparr>)"

definition agrees_to :: "nat \<Rightarrow> number \<Rightarrow> real \<Rightarrow> bool" where
  \<comment> \<open>The number is finite and is \<open>v\<close> once rounded to \<open>d\<close> decimal places: the reading of
      "\<open>x \<approx> v\<close>" when \<open>v\<close> is printed with \<open>d\<close> decimals.\<close>
  "agrees_to d n v =
     (case n of Fin x \<Rightarrow> of_int \<lfloor>x * 10 ^ d + 1 / 2\<rfloor> / 10 ^ d = v | _ \<Rightarrow> False)"

subsection \<open>Payment verification (\<^verbatim>\<open>SolanaPayment.verifyPayment\<close>)\<close>

definition truthy :: "string option \<Rightarrow> bool" where
  \<comment> \<open>\<^verbatim>\<open>if (x)\<close> for a value that is absent or a string: \<^verbatim>\<open>null\<close>, \<^verbatim>\<open>undefined\<close> and the empty
      string are falsy.\<close>
  "truthy e = (case e of None \<Rightarrow> False | Some x \<Rightarrow> x \<noteq> [])"










subsection \<open>Paying for a render (\<^verbatim>\<open>RaymentClient.payForRender\<close>)\<close>

record PaymentRequired =
  jobId :: string
  price :: number
  breakdown :: PriceBreakdown
  payTo :: string
  expiresAt :: int                \<comment> \<open>Unix time stamp, milliseconds\<close>
  memo :: string

datatype api_call =
    SendPayment string number string     \<comment> \<open>\<^verbatim>\<open>solana.sendPayment(payTo, price, memo)\<close>\<close>
  | PostRenderPay string string        \<comment> \<open>\<^verbatim>\<open>api.post('/render/pay', {jobId, txSignature})\<close>\<close>

record hub_reply =
  success :: bool                  \<comment> \<open>\<^verbatim>\<open>res.data.success\<close>\<close>
  reply_error :: "string option"   \<comment> \<open>\<^verbatim>\<open>res.data.error\<close>\<close>

record pay_env =
  sendPayment :: "string \<Rightarrow> number \<Rightarrow> string \<Rightarrow> string + string"
    \<comment> \<open>the injected payment capability: the thrown message, or the transaction signature\<close>
  postRenderPay :: "string \<Rightarrow> string \<Rightarrow> string + hub_reply"
    \<comment> \<open>the hub's answer to the confirmation: the thrown message, or \<^verbatim>\<open>res.data\<close>\<close>

definition or_default :: "string option \<Rightarrow> string \<Rightarrow> string" where
  \<comment> \<open>\<^verbatim>\<open>a || b\<close> on an optional string: \<^verbatim>\<open>undefined\<close> and the empty string are falsy.\<close>
  "or_default a b = (case a of None \<Rightarrow> b | Some x \<Rightarrow> if x = [] then b else x)"

definition quoteExpired :: "int \<Rightarrow> PaymentRequired \<Rightarrow> bool" where
  \<comment> \<open>The quote's \<^verbatim>\<open>expiresAt\<close> is in the past at the time \<open>now\<close> (\<^verbatim>\<open>Date.now()\<close>).\<close>
  "quoteExpired now payment \<longleftrightarrow> expiresAt payment < now"

definition payForRender ::
  "bool \<Rightarrow> pay_env \<Rightarrow> PaymentRequired \<Rightarrow> api_call list \<times> (string + string)" where
  \<comment> \<open>\<open>hasSolana\<close>: \<^verbatim>\<open>this.solana\<close> is set (a private key was configured). The result is the
      list of outgoing calls, in order, and the thrown message or the returned job id.\<close>
  "payForRender hasSolana env payment =
     (if \<not> hasSolana then ([], Inl ''Private key required for payments'')
      else
        (case sendPayment env (payTo payment) (price payment) (memo payment) of
           Inl msg \<Rightarrow> ([SendPayment (payTo payment) (price payment) (memo payment)], Inl msg)
         | Inr txSignature \<Rightarrow>
             (let calls = [SendPayment (payTo payment) (price payment) (memo payment),
                           PostRenderPay (jobId payment) txSignature]
              in case postRenderPay env (jobId payment) txSignature of
                   Inl msg \<Rightarrow> (calls, Inl msg)
                 | Inr res \<Rightarrow>
                     if \<not> success res
                     then (calls, Inl (or_default (reply_error res) ''Payment confirmation failed''))
                     else (calls, Inr (jobId payment)))))"

subsection \<open>Polling (\<^verbatim>\<open>RaymentClient.waitForCompletion\<close>)\<close>

datatype JobStatus =
  PendingPayment | Paid | Queued | Rendering | Completed | Failed | Cancelled

record RenderJob =
  job_id :: string                     \<comment> \<open>\<^verbatim>\<open>id\<close>\<close>
  job_status :: JobStatus              \<comment> \<open>\<^verbatim>\<open>status\<close>\<close>
  job_renderTime :: "number option"      \<comment> \<open>\<^verbatim>\<open>renderTime?\<close>\<close>
  job_error :: "string option"         \<comment> \<open>\<^verbatim>\<open>error?\<close>\<close>

record wait_options =
  pollInterval :: "int option"
  timeout :: "int option"

record wait_result =
  outcome :: "string + RenderJob"     \<comment> \<open>the thrown message, or the returned job\<close>
  requests :: nat                      \<comment> \<open>the number of \<^verbatim>\<open>getJobStatus\<close> requests sent\<close>
  progress :: "RenderJob list"         \<comment> \<open>the jobs handed to \<^verbatim>\<open>onProgress\<close>, in order\<close>

type_synonym poll = "(string + RenderJob) \<times> int"
  \<comment> \<open>One iteration of the loop as the environment answers it: what \<^verbatim>\<open>getJobStatus\<close> gives
      (the thrown message, or the job), and what \<^verbatim>\<open>Date.now()\<close> reads at the timeout check.\<close>

fun poll_loop :: "int \<Rightarrow> int \<Rightarrow> poll list \<Rightarrow> nat \<Rightarrow> RenderJob list \<Rightarrow> wait_result option" where
  "poll_loop startTime timeout' [] n seen = None"
| "poll_loop startTime timeout' ((answer, now) # rest) n seen =
     (case answer of
        Inl msg \<Rightarrow> Some \<lparr> outcome = Inl msg, requests = Suc n, progress = seen \<rparr>
      | Inr job \<Rightarrow>
          if job_status job = Completed
          then Some \<lparr> outcome = Inr job, requests = Suc n, progress = seen @ [job] \<rparr>
          else if job_status job = Failed
          then Some \<lparr> outcome = Inl (''Render failed: '' @
                                      (case job_error job of None \<Rightarrow> ''undefined'' | Some e \<Rightarrow> e)),
                      requests = Suc n, progress = seen @ [job] \<rparr>
          else if now - startTime > timeout'
          then Some \<lparr> outcome = Inl ''Timeout waiting for render'',
                      requests = Suc n, progress = seen @ [job] \<rparr>
          else poll_loop startTime timeout' rest (Suc n) (seen @ [job]))"

definition timeout_of :: "wait_options \<Rightarrow> int" where
  \<comment> \<open>\<^verbatim>\<open>options.timeout || 600000\<close>: an absent value and \<open>0\<close> are replaced by ten minutes.\<close>
  "timeout_of options = (case timeout options of None \<Rightarrow> 600000
                                               | Some t \<Rightarrow> if t = 0 then 600000 else t)"

definition waitForCompletion :: "wait_options \<Rightarrow> int \<Rightarrow> poll list \<Rightarrow> wait_result option" where
  \<comment> \<open>\<open>startTime\<close> is the first reading of \<^verbatim>\<open>Date.now()\<close>. The list holds the answers of the
      environment to the successive iterations; \<open>None\<close>: the loop is still running when
      the list is used up.\<close>
  "waitForCompletion options startTime polls =
     poll_loop startTime (timeout_of options) polls 0 []"

definition keeps_polling :: "wait_options \<Rightarrow> int \<Rightarrow> poll \<Rightarrow> bool" where
  \<comment> \<open>An iteration after which the loop sleeps and polls again: the request was answered,
      the job is neither completed nor failed, and the deadline has not passed.\<close>
  "keeps_polling options startTime p \<longleftrightarrow>
     (case fst p of
        Inl msg \<Rightarrow> False
      | Inr job \<Rightarrow> job_status job \<noteq> Completed \<and> job_status job \<noteq> Failed
                   \<and> \<not> (snd p - startTime > timeout_of options))"

definition polled_job :: "poll \<Rightarrow> RenderJob list" where
  "polled_job p = (case fst p of Inl msg \<Rightarrow> [] | Inr job \<Rightarrow> [job])"

subsection \<open>Downloading (\<^verbatim>\<open>RaymentClient.downloadResult\<close>)\<close>

definition endsWith :: "string \<Rightarrow> string \<Rightarrow> bool" where
  "endsWith s suffix \<longleftrightarrow>
     length suffix \<le> length s \<and> drop (length s - length suffix) s = suffix"

definition downloadResult ::
  "(string + string) \<Rightarrow> (string \<Rightarrow> string option) \<Rightarrow> string \<Rightarrow> string + string" where
  \<comment> \<open>\<open>apiGet\<close>: the answer to \<^verbatim>\<open>api.get(`/render/${jobId}/result`)\<close>, the thrown message or
      the data; \<open>writeFileSync\<close>: the message thrown when writing a path, if any.\<close>
  "downloadResult apiGet writeFileSync outputPath' =
     (case apiGet of
        Inl msg \<Rightarrow> Inl msg
      | Inr data \<Rightarrow>
          (let finalPath = (if endsWith outputPath' ''.png'' then outputPath'
                            else outputPath' @ ''.png'')
           in case writeFileSync finalPath of
                Some msg \<Rightarrow> Inl msg
              | None \<Rightarrow> Inr finalPath))"

subsection \<open>One file of a batch (\<^verbatim>\<open>processFile\<close> in \<^verbatim>\<open>RaymentClient.renderBatch\<close>)\<close>

record BatchFileResult =
  r_file :: string                 \<comment> \<open>\<^verbatim>\<open>file\<close>\<close>
  r_outputPath :: "string option"  \<comment> \<open>\<^verbatim>\<open>outputPath?\<close>\<close>
  r_jobId :: "string option"       \<comment> \<open>\<^verbatim>\<open>jobId?\<close>\<close>
  r_cost :: "number option"          \<comment> \<open>\<^verbatim>\<open>cost?\<close>\<close>
  r_renderTime :: "number option"    \<comment> \<open>\<^verbatim>\<open>renderTime?\<close>\<close>
  r_error :: "string option"       \<comment> \<open>\<^verbatim>\<open>error?\<close>\<close>

datatype file_stage =
    FilePending | FileUploading | FilePaying | FileRendering | FileDownloading
  | FileCompleted | FileFailed
  \<comment> \<open>\<^verbatim>\<open>'pending' | 'uploading' | 'paying' | 'rendering' | 'downloading' | 'completed' | 'failed'\<close>\<close>

record BatchFileStatus =
  s_file :: string
  s_status :: file_stage
  s_progress :: "number option"
  s_error :: "string option"
  s_jobId :: "string option"
  s_cost :: "number option"
  s_renderTime :: "number option"
  s_outputPath :: "string option"

record job_env =
  existsSync :: bool                            \<comment> \<open>\<^verbatim>\<open>fs.existsSync(filePath)\<close>\<close>
  requestRender :: "string + PaymentRequired"   \<comment> \<open>the thrown message, or the quote of the hub\<close>
  pay :: pay_env
  startTime :: int
  polls :: "poll list"
  apiGet :: "string + string"
  writeFileSync :: "string \<Rightarrow> string option"

definition pending_status :: "string \<Rightarrow> BatchFileStatus" where
  \<comment> \<open>The entry \<^verbatim>\<open>{ file, status: 'pending' }\<close> that \<^verbatim>\<open>renderBatch\<close> stores for every file.\<close>
  "pending_status f = \<lparr> s_file = f, s_status = FilePending, s_progress = None, s_error = None,
                        s_jobId = None, s_cost = None, s_renderTime = None, s_outputPath = None \<rparr>"

definition updateFileStatus ::
  "BatchFileStatus list \<Rightarrow> (BatchFileStatus \<Rightarrow> BatchFileStatus) \<Rightarrow> BatchFileStatus list" where
  \<comment> \<open>The list is the history of the file's entry in \<^verbatim>\<open>fileStatuses\<close>, the current one last;
      \<^verbatim>\<open>{ ...current, ...update }\<close> is stored and handed to \<^verbatim>\<open>onFileProgress\<close>.\<close>
  "updateFileStatus history update = history @ [update (last history)]"

definition processFile_try ::
  "bool \<Rightarrow> (string \<Rightarrow> string) \<Rightarrow> job_env \<Rightarrow> string \<Rightarrow> BatchFileStatus list
     \<Rightarrow> ((string + BatchFileResult) \<times> BatchFileStatus list) option" where
  \<comment> \<open>The \<^verbatim>\<open>try\<close> block: \<open>Inl msg\<close> is the exception that reaches \<^verbatim>\<open>catch\<close>. \<open>outputPathOf\<close>
      stands for \<^verbatim>\<open>path.join(outputDir, path.basename(filePath).replace(/\.[^.]+$/, '.png'))\<close>.
      \<open>None\<close>: the polling loop is still running.\<close>
  "processFile_try hasSolana outputPathOf env filePath h0 =
     (if \<not> existsSync env then Some (Inl (''File not found: '' @ filePath), h0)
      else
        (let h1 = updateFileStatus h0 (\<lambda>st. st\<lparr> s_status := FileUploading \<rparr>)
         in case requestRender env of
              Inl msg \<Rightarrow> Some (Inl msg, h1)
            | Inr payment \<Rightarrow>
                (let h2 = updateFileStatus h1
                       (\<lambda>st. st\<lparr> s_status := FilePaying, s_jobId := Some (jobId payment),
                                  s_cost := Some (price payment) \<rparr>)
                 in case snd (payForRender hasSolana (pay env) payment) of
                      Inl msg \<Rightarrow> Some (Inl msg, h2)
                    | Inr jobId' \<Rightarrow>
                        (let h3 = updateFileStatus h2 (\<lambda>st. st\<lparr> s_status := FileRendering \<rparr>)
                         in case waitForCompletion \<lparr> pollInterval = None, timeout = None \<rparr>
                                   (startTime env) (polls env) of
                              None \<Rightarrow> None
                            | Some w \<Rightarrow>
                                (let h4 = foldl (\<lambda>h j. updateFileStatus h
                                             (\<lambda>st. st\<lparr> s_status := FileRendering,
                                                        s_progress := (if job_status j = Rendering
                                                                       then Some (Fin 50) else None) \<rparr>))
                                           h3 (progress w)
                                 in case outcome w of
                                      Inl msg \<Rightarrow> Some (Inl msg, h4)
                                    | Inr job \<Rightarrow>
                                        (let h5 = updateFileStatus h4
                                               (\<lambda>st. st\<lparr> s_status := FileDownloading \<rparr>)
                                         in case downloadResult (apiGet env) (writeFileSync env)
                                                   (outputPathOf filePath) of
                                              Inl msg \<Rightarrow> Some (Inl msg, h5)
                                            | Inr resultPath \<Rightarrow>
                                                Some (Inr \<lparr> r_file = filePath,
                                                            r_outputPath = Some resultPath,
                                                            r_jobId = Some jobId',
                                                            r_cost = Some (price payment),
                                                            r_renderTime = job_renderTime job,
                                                            r_error = None \<rparr>,
                                                      updateFileStatus h5
                                                        (\<lambda>st. st\<lparr> s_status := FileCompleted,
                                                                   s_outputPath := Some resultPath,
                                                                   s_renderTime := job_renderTime job \<rparr>))))))))"

definition processFile ::
  "bool \<Rightarrow> (string \<Rightarrow> string) \<Rightarrow> job_env \<Rightarrow> string \<Rightarrow> (BatchFileResult \<times> BatchFileStatus list) option" where
  \<comment> \<open>The result the promise resolves to, and the history of the file's status.\<close>
  "processFile hasSolana outputPathOf env filePath =
     (case processFile_try hasSolana outputPathOf env filePath [pending_status filePath] of
        None \<Rightarrow> None
      | Some (Inr result, h) \<Rightarrow> Some (result, h)
      | Some (Inl msg, h) \<Rightarrow>
          Some (\<lparr> r_file = filePath, r_outputPath = None, r_jobId = None, r_cost = None,
                  r_renderTime = None, r_error = Some msg \<rparr>,
                updateFileStatus h (\<lambda>st. st\<lparr> s_status := FileFailed, s_error := Some msg \<rparr>)))"

subsection \<open>The batch scheduler (\<^verbatim>\<open>RaymentClient.renderBatch\<close>)\<close>

text \<open>
  \<^verbatim>\<open>renderBatch\<close> is one asynchronous function: it runs without interruption up to its
  \<^verbatim>\<open>await Promise.race(...)\<close>, and only while it is suspended there do the \<^verbatim>\<open>then\<close> callbacks of
  the started \<^verbatim>\<open>processFile\<close> promises run, in an order that the remote parties decide.
  The model is a step relation on the state of the loop: \<open>successors\<close> lists the states that
  can follow a state. The steps of the function itself are deterministic; while it is
  suspended, any lifecycle in flight may settle next, and the function resumes once one of
  the promises it waits for has settled. The model is that of a call without the optional
  callbacks \<^verbatim>\<open>onFileProgress\<close> and \<^verbatim>\<open>onBatchProgress\<close>: an exception thrown by a callback of the
  caller is not a state of the model.
\<close>

record BatchRenderOptions =
  files :: "string list"
  concurrency :: "int option"
  stopOnError :: "bool option"

definition concurrency_of :: "BatchRenderOptions \<Rightarrow> int" where
  \<comment> \<open>The destructuring default \<^verbatim>\<open>concurrency = 3\<close>.\<close>
  "concurrency_of options = (case concurrency options of None \<Rightarrow> 3 | Some n \<Rightarrow> n)"

definition stopOnError_of :: "BatchRenderOptions \<Rightarrow> bool" where
  \<comment> \<open>The destructuring default \<^verbatim>\<open>stopOnError = false\<close>.\<close>
  "stopOnError_of options = (case stopOnError options of None \<Rightarrow> False | Some b \<Rightarrow> b)"

datatype pc =
    Outer               \<comment> \<open>at the test of \<^verbatim>\<open>while (queue.length > 0 || activePromises.size > 0)\<close>\<close>
  | Inner               \<comment> \<open>at the test of \<^verbatim>\<open>while (queue.length > 0 && activePromises.size < concurrency)\<close>\<close>
  | Awaiting "nat list" \<comment> \<open>suspended in \<^verbatim>\<open>await Promise.race(...)\<close> on these promises\<close>
  | Returned            \<comment> \<open>past the loop: the result is built and returned\<close>

record batch_state =
  pc :: pc
  queue :: "string list"
  activePromises :: "(string \<times> nat) list"
    \<comment> \<open>the \<^verbatim>\<open>Map\<close> from file to promise, in insertion order; a promise is the number of the
        \<^verbatim>\<open>processFile\<close> call that made it\<close>
  inflight :: "(nat \<times> string) list"
    \<comment> \<open>the lifecycles in flight: the \<^verbatim>\<open>processFile\<close> calls, with their file, whose promise
        has not settled yet\<close>
  successful :: "BatchFileResult list"
  failed :: "BatchFileResult list"
  started :: nat
    \<comment> \<open>the number of \<^verbatim>\<open>processFile\<close> calls made so far\<close>

record world =
  hasSolana :: bool
  outputDirExists :: bool            \<comment> \<open>\<^verbatim>\<open>fs.existsSync(outputDir)\<close>\<close>
  mkdirSync :: "string option"       \<comment> \<open>the message that \<^verbatim>\<open>fs.mkdirSync(outputDir, ...)\<close> throws, if any\<close>
  outputPathOf :: "string \<Rightarrow> string"
  jobs :: "nat \<Rightarrow> job_env"
    \<comment> \<open>what the remote parties answer to the \<open>i\<close>-th lifecycle\<close>

definition renderBatch_start :: "BatchRenderOptions \<Rightarrow> string + batch_state" where
  \<comment> \<open>The validation of the inputs, and the state in which the loop is entered once the
      output directory is there.\<close>
  "renderBatch_start options =
     (if files options = [] then Inl ''No files provided for batch rendering''
      else Inr \<lparr> pc = Outer, queue = files options, activePromises = [], inflight = [],
                 successful = [], failed = [], started = 0 \<rparr>)"

definition ensure_outputDir :: "world \<Rightarrow> string option" where
  \<comment> \<open>\<^verbatim>\<open>if (!fs.existsSync(outputDir)) fs.mkdirSync(outputDir, { recursive: true })\<close>: the
      message thrown, if any.\<close>
  "ensure_outputDir w = (if \<not> outputDirExists w then mkdirSync w else None)"

definition renderBatch_enter :: "world \<Rightarrow> BatchRenderOptions \<Rightarrow> string + batch_state" where
  \<comment> \<open>\<^verbatim>\<open>renderBatch\<close> up to its loop: the error thrown, or the state in which the loop is
      entered.\<close>
  "renderBatch_enter w options =
     (case renderBatch_start options of
        Inl msg \<Rightarrow> Inl msg
      | Inr s \<Rightarrow> (case ensure_outputDir w of Some msg \<Rightarrow> Inl msg | None \<Rightarrow> Inr s))"

definition on_settled :: "bool \<Rightarrow> nat \<Rightarrow> string \<Rightarrow> BatchFileResult \<Rightarrow> batch_state \<Rightarrow> batch_state" where
  \<comment> \<open>The \<^verbatim>\<open>then\<close> callback of promise \<open>i\<close>, made for \<open>file\<close>, on the result of \<^verbatim>\<open>processFile\<close>.\<close>
  "on_settled stopOnError' i file' result s =
     (let s1 = (if truthy (r_error result)
                then s\<lparr> failed := failed s @ [result],
                        queue := (if stopOnError' then [] else queue s) \<rparr>
                else s\<lparr> successful := successful s @ [result] \<rparr>)
      in s1\<lparr> activePromises := AList.delete file' (activePromises s1),
              inflight := filter (\<lambda>p. fst p \<noteq> i) (inflight s1) \<rparr>)"

definition start_next :: "string \<Rightarrow> string list \<Rightarrow> batch_state \<Rightarrow> batch_state" where
  \<comment> \<open>The body of the inner loop, for \<^verbatim>\<open>file = queue.shift()\<close> and the rest of the queue.\<close>
  "start_next file' rest s =
     s\<lparr> queue := rest,
        activePromises := AList.update file' (started s) (activePromises s),
        inflight := inflight s @ [(started s, file')],
        started := Suc (started s) \<rparr>"

definition settlements :: "world \<Rightarrow> bool \<Rightarrow> batch_state \<Rightarrow> batch_state list" where
  \<comment> \<open>The states after one of the lifecycles in flight has settled and its callback has run.\<close>
  "settlements w stopOnError' s =
     concat (map (\<lambda>(i, file').
                    case processFile (hasSolana w) (outputPathOf w) (jobs w i) file' of
                      None \<Rightarrow> []
                    | Some (result, history) \<Rightarrow> [on_settled stopOnError' i file' result s])
                 (inflight s))"

definition race_settled :: "nat list \<Rightarrow> batch_state \<Rightarrow> bool" where
  \<comment> \<open>One of the promises handed to \<^verbatim>\<open>Promise.race\<close> has settled.\<close>
  "race_settled waited s \<longleftrightarrow> filter (\<lambda>i. i \<notin> fst ` set (inflight s)) waited \<noteq> []"

definition after_inner :: "batch_state \<Rightarrow> batch_state" where
  \<comment> \<open>Past the inner loop: \<^verbatim>\<open>if (activePromises.size > 0) await Promise.race(...)\<close>.\<close>
  "after_inner s =
     (if activePromises s \<noteq> [] then s\<lparr> pc := Awaiting (map snd (activePromises s)) \<rparr>
      else s\<lparr> pc := Outer \<rparr>)"

definition successors :: "world \<Rightarrow> int \<Rightarrow> bool \<Rightarrow> batch_state \<Rightarrow> batch_state list" where
  "successors w concurrency' stopOnError' s =
     (case pc s of
        Outer \<Rightarrow>
          if queue s \<noteq> [] \<or> activePromises s \<noteq> [] then [s\<lparr> pc := Inner \<rparr>]
          else [s\<lparr> pc := Returned \<rparr>]
      | Inner \<Rightarrow>
          (case queue s of
             file' # rest \<Rightarrow>
               if int (length (activePromises s)) < concurrency' then [start_next file' rest s]
               else [after_inner s]
           | [] \<Rightarrow> [after_inner s])
      | Awaiting waited \<Rightarrow>
          settlements w stopOnError' s
          @ (if race_settled waited s then [s\<lparr> pc := Outer \<rparr>] else [])
      | Returned \<Rightarrow> [])"

definition step :: "world \<Rightarrow> int \<Rightarrow> bool \<Rightarrow> batch_state \<Rightarrow> batch_state \<Rightarrow> bool" where
  "step w concurrency' stopOnError' s s' \<longleftrightarrow> s' \<in> set (successors w concurrency' stopOnError' s)"

inductive reachable :: "world \<Rightarrow> BatchRenderOptions \<Rightarrow> batch_state \<Rightarrow> bool"
  for w :: world and options :: BatchRenderOptions
where
  entered: "renderBatch_enter w options = Inr s \<Longrightarrow> reachable w options s"
| stepped: "reachable w options s \<Longrightarrow>
            step w (concurrency_of options) (stopOnError_of options) s s' \<Longrightarrow>
            reachable w options s'"




subsection \<open>Invariants of the scheduler\<close>

text \<open>
  \<open>sched_inv\<close> holds in every state of every batch: a promise in the map belongs to a
  lifecycle in flight, the lifecycles in flight have different numbers, and the map never
  holds more than \<open>concurrency\<close> entries. \<open>partition_inv\<close> holds when the files are pairwise
  distinct: the files started are a prefix of the input, and each of them is either in
  flight or in exactly one of the two result lists. \<open>work_left\<close> bounds the number of steps
  that a batch can still make.
\<close>

definition sched_inv :: "int \<Rightarrow> batch_state \<Rightarrow> bool" where
  "sched_inv N s \<longleftrightarrow>
     (pc s = Inner \<longrightarrow> queue s \<noteq> [] \<or> activePromises s \<noteq> []) \<and>
     (\<forall>waited. pc s = Awaiting waited \<longrightarrow> waited \<noteq> []) \<and>
     (pc s = Returned \<longrightarrow> queue s = [] \<and> activePromises s = []) \<and>
     (\<forall>(f, i) \<in> set (activePromises s). (i, f) \<in> set (inflight s)) \<and>
     distinct (map fst (inflight s)) \<and>
     (\<forall>(i, f) \<in> set (inflight s). i < started s) \<and>
     int (length (activePromises s)) \<le> max N 0"

definition partition_inv :: "string list \<Rightarrow> bool \<Rightarrow> batch_state \<Rightarrow> bool" where
  "partition_inv fs b s \<longleftrightarrow>
     started s \<le> length fs \<and>
     (queue s = drop (started s) fs \<or> (b \<and> queue s = [] \<and> failed s \<noteq> [])) \<and>
     (b \<and> failed s \<noteq> [] \<longrightarrow> queue s = []) \<and>
     activePromises s = map (\<lambda>p. (snd p, fst p)) (inflight s) \<and>
     mset (map r_file (successful s @ failed s)) + mset (map snd (inflight s))
       = mset (take (started s) fs) \<and>
     (\<forall>r \<in> set (failed s). truthy (r_error r)) \<and>
     (\<forall>r \<in> set (successful s). \<not> truthy (r_error r))"


subsection \<open>Concrete inputs\<close>

definition scenario_tariff :: ProviderPricing where
  "scenario_tariff = \<lparr> pricePerFrame = fl 0.001, pricePerSecond = fl 0.0001,
                        pricePerGb = fl 0.01, minimumPrice = fl 0.005 \<rparr>"

definition scenario_job :: JobInfo where
  "scenario_job = \<lparr> fileSizeMb = Fin 100, frameCount = Fin 1, estimatedRenderSeconds = Fin 60 \<rparr>"

definition small_job :: JobInfo where
  "small_job = \<lparr> fileSizeMb = Fin 10, frameCount = Fin 1, estimatedRenderSeconds = Fin 10 \<rparr>"

definition micro_tariff :: ProviderPricing where
  "micro_tariff = \<lparr> pricePerFrame = Fin 0, pricePerSecond = Fin 0, pricePerGb = Fin 0,
                     minimumPrice = fl 0.000001 \<rparr>"

definition premium_tariff :: ProviderPricing where
  \<comment> \<open>The rates of the scenario with a minimum price of \<open>15.34375 = 491 / 32\<close> SOL, a double.\<close>
  "premium_tariff = \<lparr> pricePerFrame = fl 0.001, pricePerSecond = fl 0.0001,
                       pricePerGb = fl 0.01, minimumPrice = Fin 15.34375 \<rparr>"



definition paying_env :: pay_env where
  "paying_env = \<lparr> sendPayment = (\<lambda>to amount m. Inr ''tx-signature''),
                   postRenderPay = (\<lambda>j t. Inr \<lparr> success = True, reply_error = None \<rparr>) \<rparr>"

definition scenario_quote :: PaymentRequired where
  "scenario_quote =
     \<lparr> jobId = ''job-1'', price = fl 0.008375,
       breakdown = \<lparr> basePrice = fl 0.0079765625, fileSizeFee = fl 0.0009765625,
                     frameFee = fl 0.001, estimatedRenderFee = fl 0.006,
                     platformFee = fl 0.000398828125, total = fl 0.008375 \<rparr>,
       payTo = ''ProviderWallet'', expiresAt = 1699999999999, memo = ''rayment:job-1'' \<rparr>"

definition rendering_job :: RenderJob where
  "rendering_job = \<lparr> job_id = ''job-1'', job_status = Rendering, job_renderTime = None,
                      job_error = None \<rparr>"

definition completed_job :: RenderJob where
  "completed_job = \<lparr> job_id = ''job-1'', job_status = Completed, job_renderTime = Some (Fin 42),
                      job_error = None \<rparr>"

definition default_wait :: wait_options where
  "default_wait = \<lparr> pollInterval = None, timeout = None \<rparr>"

definition download_fails_env :: job_env where
  \<comment> \<open>Every step succeeds, the hub reports the job completed at the second poll, and the
      request for the result is answered with an error.\<close>
  "download_fails_env =
     \<lparr> existsSync = True,
       requestRender = Inr scenario_quote,
       pay = paying_env,
       startTime = 1700000000000,
       polls = [(Inr rendering_job, 1700000000100), (Inr completed_job, 1700000002200)],
       apiGet = Inl ''Request failed with status code 500'',
       writeFileSync = (\<lambda>path. None) \<rparr>"

definition failing_world :: world where
  \<comment> \<open>Every lifecycle runs into the failing download of \<open>download_fails_env\<close>.\<close>
  "failing_world = \<lparr> hasSolana = True, outputDirExists = False, mkdirSync = None,
                      outputPathOf = (\<lambda>f. f @ ''.png''),
                      jobs = (\<lambda>i. download_fails_env) \<rparr>"



definition download_failure :: "string \<Rightarrow> BatchFileResult" where
  "download_failure f = \<lparr> r_file = f, r_outputPath = None, r_jobId = None, r_cost = None,
                     r_renderTime = None, r_error = Some ''Request failed with status code 500'' \<rparr>"


definition dup_options :: BatchRenderOptions where
  "dup_options = \<lparr> files = [''a.blend'', ''a.blend'', ''a.blend''], concurrency = Some 2,
                    stopOnError = None \<rparr>"

definition overfull_state :: batch_state where
  \<comment> \<open>Three lifecycles in flight, one entry in the map.\<close>
  "overfull_state = \<lparr> pc = Inner, queue = [], activePromises = [(''a.blend'', 2)],
                       inflight = [(0, ''a.blend''), (1, ''a.blend''), (2, ''a.blend'')],
                       successful = [], failed = [], started = 3 \<rparr>"

definition spin_options :: BatchRenderOptions where
  "spin_options = \<lparr> files = [''scene.blend''], concurrency = Some 0, stopOnError = None \<rparr>"

section \<open>Properties\<close>

subsection \<open>Rounding to the nearest double\<close>

text \<open>
  The exponent \<open>binade x\<close> is the one of the binade of \<open>x\<close>; rounding is monotone and odd,
  and its error is at most half a \<open>quantum\<close>.
\<close>

lemma binade_bounds:
  "x \<noteq> 0 \<Longrightarrow> 2 powi binade x \<le> \<bar>x\<bar> \<and> \<bar>x\<bar> < 2 powi (binade x + 1)"
proof (induction x rule: binade.induct)
  case (1 x)
  show ?case
  proof (cases "2 \<le> \<bar>x\<bar>")
    case True
    with "1.prems" have b: "binade x = binade (x / 2) + 1"
      by (simp add: binade.simps [of x])
    from "1.IH"(1) [OF "1.prems" True] "1.prems"
    have "2 powi binade (x / 2) \<le> \<bar>x / 2\<bar> \<and> \<bar>x / 2\<bar> < 2 powi (binade (x / 2) + 1)"
      by simp
    then show ?thesis
      unfolding b by (simp add: power_int_add field_simps)
  next
    case False
    show ?thesis
    proof (cases "\<bar>x\<bar> < 1")
      case True
      with "1.prems" False have b: "binade x = binade (x * 2) - 1"
        by (simp add: binade.simps [of x])
      from "1.IH"(2) [OF "1.prems" False True] "1.prems"
      have "2 powi binade (x * 2) \<le> \<bar>x\<bar> * 2 \<and> \<bar>x\<bar> * 2 < 2 powi (binade (x * 2) + 1)"
        by (simp add: abs_mult)
      then show ?thesis
        unfolding b by (simp add: power_int_add power_int_diff field_simps)
    next
      case nlt: False
      with "1.prems" False have "binade x = 0"
        by (simp add: binade.simps [of x])
      with False nlt show ?thesis by simp
    qed
  qed
qed

lemma powi_mono2: "a \<le> b \<Longrightarrow> (2::real) powi a \<le> 2 powi b"
  by (rule power_int_increasing) simp_all

lemma powi_less_imp: "(2::real) powi a < 2 powi b \<Longrightarrow> a < b"
  using powi_mono2 [of b a] by (cases "a < b") simp_all

lemma powi_le_imp: "(2::real) powi a \<le> 2 powi b \<Longrightarrow> a \<le> b"
  using power_int_strict_increasing [of b a "2::real"] by (cases "a \<le> b") simp_all

lemma binade_eqI:
  assumes "2 powi k \<le> \<bar>x\<bar>" and "\<bar>x\<bar> < 2 powi (k + 1)"
  shows "binade x = k"
proof -
  have "0 < (2::real) powi k"
    by simp
  with assms(1) have "0 < \<bar>x\<bar>"
    by linarith
  then have nz: "x \<noteq> 0"
    by simp
  note b = binade_bounds [OF nz]
  have "2 powi binade x < (2::real) powi (k + 1)"
    using b assms(2) by linarith
  then have 1: "binade x < k + 1" by (rule powi_less_imp)
  have "2 powi k < (2::real) powi (binade x + 1)"
    using b assms(1) by linarith
  then have "k < binade x + 1" by (rule powi_less_imp)
  with 1 show ?thesis by simp
qed

lemma binade_minus [simp]: "binade (- x) = binade x"
proof (cases "x = 0")
  case True
  then show ?thesis by simp
next
  case False
  from binade_bounds [OF False] show ?thesis
    by (intro binade_eqI) simp_all
qed

lemma binade_mono:
  assumes "x \<noteq> 0" and "\<bar>x\<bar> \<le> \<bar>y\<bar>"
  shows "binade x \<le> binade y"
proof -
  have ny: "y \<noteq> 0" using assms by auto
  have "2 powi binade x < (2::real) powi (binade y + 1)"
    using binade_bounds [OF assms(1)] binade_bounds [OF ny] assms(2) by linarith
  then have "binade x < binade y + 1" by (rule powi_less_imp)
  then show ?thesis by simp
qed

lemma quantum_pos [simp]: "0 < quantum x"
  by (simp add: quantum_def)

lemma quantum_nonneg [simp]: "0 \<le> quantum x"
  by (simp add: quantum_def)

lemma quantum_neq0 [simp]: "quantum x \<noteq> 0"
  by (simp add: quantum_def)

lemma quantum_minus [simp]: "quantum (- x) = quantum x"
  by (simp add: quantum_def)

lemma rne_cases:
  "rne t = \<lfloor>t\<rfloor> \<or> rne t = \<lfloor>t\<rfloor> + 1"
  by (simp add: rne_def Let_def)

lemma rne_error: "\<bar>of_int (rne t) - t\<bar> \<le> 1 / 2"
  unfolding rne_def Let_def by (auto split: if_splits; linarith)

lemma rne_of_int [simp]: "rne (of_int n) = n"
  by (simp add: rne_def)

lemma rne_mono:
  assumes "s \<le> t"
  shows "rne s \<le> rne t"
proof (cases "\<lfloor>s\<rfloor> = \<lfloor>t\<rfloor>")
  case True
  with assms show ?thesis
    by (auto simp: rne_def Let_def)
next
  case False
  with assms have "\<lfloor>s\<rfloor> < \<lfloor>t\<rfloor>"
    by (simp add: floor_mono order.strict_iff_order)
  moreover have "rne s \<le> \<lfloor>s\<rfloor> + 1" "\<lfloor>t\<rfloor> \<le> rne t"
    using rne_cases [of s] rne_cases [of t] by auto
  ultimately show ?thesis by linarith
qed

lemma rne_le_int: "t \<le> of_int n \<Longrightarrow> rne t \<le> n"
  using rne_mono [of t "of_int n"] by simp

lemma rne_ge_int: "of_int n \<le> t \<Longrightarrow> n \<le> rne t"
  using rne_mono [of "of_int n" t] by simp

lemma rne_minus: "rne (- t) = - rne t"
proof (cases "t = of_int \<lfloor>t\<rfloor>")
  case True
  then have "rne (- of_int \<lfloor>t\<rfloor>) = - rne (of_int \<lfloor>t\<rfloor>)"
    unfolding of_int_minus [symmetric] rne_of_int by simp
  with True show ?thesis
    by simp
next
  case False
  then have "\<lceil>t\<rceil> = \<lfloor>t\<rfloor> + 1"
    by (simp add: ceiling_altdef)
  then have fl: "\<lfloor>- t\<rfloor> = - \<lfloor>t\<rfloor> - 1"
    by (simp add: ceiling_def)
  show ?thesis
    unfolding rne_def Let_def fl using False
    by (auto simp: algebra_simps) (linarith+)?
qed

lemma fl_fin_0 [simp]: "fl_fin 0 = 0"
  by (simp add: fl_fin_def rne_def)

lemma fl_fin_minus: "fl_fin (- x) = - fl_fin x"
  by (simp add: fl_fin_def rne_minus)

lemma fl_fin_nonneg:
  assumes "0 \<le> x"
  shows "0 \<le> fl_fin x"
proof -
  have "of_int 0 \<le> x / quantum x"
    using assms by simp
  then have "0 \<le> rne (x / quantum x)"
    by (rule rne_ge_int)
  then show ?thesis
    by (simp add: fl_fin_def)
qed

lemma powi_nonneg_int:
  assumes "0 \<le> k"
  shows "(2::real) powi k = of_int (2 ^ nat k)"
  using assms by (simp add: power_int_def)

lemma powi_split: "(2::real) powi (k - e) * 2 powi e = 2 powi k"
  by (simp add: power_int_add [symmetric])

lemma fl_fin_le_powi:
  assumes "x \<le> 2 powi k" and "max (binade x - 52) (- 1074) \<le> k"
  shows "fl_fin x \<le> 2 powi k"
proof -
  define e where "e = max (binade x - 52) (- 1074)"
  define N :: int where "N = 2 ^ nat (k - e)"
  have q: "quantum x = 2 powi e"
    by (simp add: quantum_def e_def)
  have N: "of_int N = (2::real) powi (k - e)"
    unfolding N_def using assms(2) e_def by (intro powi_nonneg_int [symmetric]) simp
  have "x \<le> of_int N * quantum x"
    unfolding N q powi_split by (rule assms(1))
  then have "x / quantum x \<le> of_int N"
    by (simp add: pos_divide_le_eq)
  then have "rne (x / quantum x) \<le> N"
    by (rule rne_le_int)
  then have "(of_int (rne (x / quantum x)) :: real) \<le> of_int N"
    by (simp only: of_int_le_iff)
  then have "of_int (rne (x / quantum x)) * quantum x \<le> of_int N * quantum x"
    by (rule mult_right_mono) simp
  then show ?thesis
    unfolding fl_fin_def N q powi_split .
qed

lemma fl_fin_ge_powi:
  assumes "2 powi k \<le> x" and "max (binade x - 52) (- 1074) \<le> k"
  shows "2 powi k \<le> fl_fin x"
proof -
  define e where "e = max (binade x - 52) (- 1074)"
  define N :: int where "N = 2 ^ nat (k - e)"
  have q: "quantum x = 2 powi e"
    by (simp add: quantum_def e_def)
  have N: "of_int N = (2::real) powi (k - e)"
    unfolding N_def using assms(2) e_def by (intro powi_nonneg_int [symmetric]) simp
  have "of_int N * quantum x \<le> x"
    unfolding N q powi_split by (rule assms(1))
  then have "of_int N \<le> x / quantum x"
    by (simp add: pos_le_divide_eq)
  then have "N \<le> rne (x / quantum x)"
    by (rule rne_ge_int)
  then have "(of_int N :: real) \<le> of_int (rne (x / quantum x))"
    by (simp only: of_int_le_iff)
  then have "of_int N * quantum x \<le> of_int (rne (x / quantum x)) * quantum x"
    by (rule mult_right_mono) simp
  then show ?thesis
    unfolding fl_fin_def N q powi_split .
qed

lemma fl_fin_mono_pos:
  assumes "0 < x" and "x \<le> y"
  shows "fl_fin x \<le> fl_fin y"
proof -
  have xn: "x \<noteq> 0" and yn: "y \<noteq> 0" and ypos: "0 < y"
    using assms by auto
  have b: "binade x \<le> binade y"
    using assms by (intro binade_mono) auto
  define ex where "ex = max (binade x - 52) (- 1074)"
  define ey where "ey = max (binade y - 52) (- 1074)"
  have e: "ex \<le> ey"
    using b by (auto simp: ex_def ey_def)
  show ?thesis
  proof (cases "ex = ey")
    case True
    then have q: "quantum x = quantum y"
      by (simp add: quantum_def ex_def ey_def)
    have "x / quantum y \<le> y / quantum y"
      using assms(2) by (rule divide_right_mono) simp
    then have "rne (x / quantum y) \<le> rne (y / quantum y)"
      by (rule rne_mono)
    then have "(of_int (rne (x / quantum y)) :: real) \<le> of_int (rne (y / quantum y))"
      by (simp only: of_int_le_iff)
    then have "of_int (rne (x / quantum y)) * quantum y \<le> of_int (rne (y / quantum y)) * quantum y"
      by (rule mult_right_mono) simp
    then show ?thesis
      unfolding fl_fin_def q .
  next
    case False
    with e have lt: "ex < ey"
      by linarith
    then have ey: "ey = binade y - 52" and bxy: "binade x < binade y"
      by (auto simp: ex_def ey_def)
    have "x < 2 powi (binade x + 1)"
      using binade_bounds [OF xn] assms(1) by simp
    also have "\<dots> \<le> 2 powi binade y"
      using bxy by (intro powi_mono2) simp
    finally have "x \<le> 2 powi binade y"
      by simp
    moreover have "max (binade x - 52) (- 1074) \<le> binade y"
      using lt ey by (simp add: ex_def)
    ultimately have 1: "fl_fin x \<le> 2 powi binade y"
      by (rule fl_fin_le_powi)
    have "2 powi binade y \<le> y"
      using binade_bounds [OF yn] ypos by simp
    moreover have "max (binade y - 52) (- 1074) \<le> binade y"
      using ey by (simp add: ey_def)
    ultimately have "2 powi binade y \<le> fl_fin y"
      by (rule fl_fin_ge_powi)
    with 1 show ?thesis
      by linarith
  qed
qed

lemma fl_fin_mono:
  assumes "x \<le> y"
  shows "fl_fin x \<le> fl_fin y"
proof -
  consider "0 < x" | "x \<le> 0" "0 \<le> y" | "y < 0"
    using assms by linarith
  then show ?thesis
  proof cases
    case 1
    then show ?thesis
      using assms by (rule fl_fin_mono_pos)
  next
    case 2
    have "0 \<le> fl_fin (- x)"
      using 2(1) by (intro fl_fin_nonneg) simp
    then have "fl_fin x \<le> 0"
      by (simp add: fl_fin_minus)
    moreover have "0 \<le> fl_fin y"
      using 2(2) by (rule fl_fin_nonneg)
    ultimately show ?thesis
      by linarith
  next
    case 3
    have "fl_fin (- y) \<le> fl_fin (- x)"
      using 3 assms by (intro fl_fin_mono_pos) auto
    then show ?thesis
      by (simp add: fl_fin_minus)
  qed
qed

lemma fl_fin_error:
  assumes "\<bar>x\<bar> \<le> 2 powi k" and "- 1022 \<le> k"
  shows "\<bar>fl_fin x - x\<bar> \<le> 2 powi (k - 53)"
proof (cases "x = 0")
  case True
  then show ?thesis by simp
next
  case False
  have "2 powi binade x \<le> (2::real) powi k"
    using binade_bounds [OF False] assms(1) by linarith
  then have "binade x \<le> k"
    by (rule powi_le_imp)
  then have "max (binade x - 52) (- 1074) \<le> k - 52"
    using assms(2) by simp
  then have q: "quantum x \<le> 2 powi (k - 52)"
    unfolding quantum_def by (rule powi_mono2)
  have "fl_fin x - x = (of_int (rne (x / quantum x)) - x / quantum x) * quantum x"
    by (simp add: fl_fin_def algebra_simps)
  then have "\<bar>fl_fin x - x\<bar> = \<bar>of_int (rne (x / quantum x)) - x / quantum x\<bar> * quantum x"
    by (simp add: abs_mult)
  also have "\<dots> \<le> (1 / 2) * quantum x"
    by (intro mult_right_mono rne_error) simp
  also have "\<dots> \<le> (1 / 2) * 2 powi (k - 52)"
    using q by simp
  also have "(1 / 2) * 2 powi (k - 52) = (2::real) powi (k - 53)"
    using power_int_add_1 [of "2::real" "k - 53"] by simp
  finally show ?thesis .
qed

lemma powi_le_MAX: "k \<le> 1023 \<Longrightarrow> 2 powi k \<le> MAX_VALUE"
proof -
  assume "k \<le> 1023"
  then have "(2::real) powi k \<le> 2 powi 1023"
    by (rule powi_mono2)
  also have "\<dots> \<le> MAX_VALUE"
    by (simp add: MAX_VALUE_def)
  finally show ?thesis .
qed

lemma binade_le:
  assumes "\<bar>x\<bar> \<le> 2 powi k"
  shows "binade x \<le> max k 0"
proof (cases "x = 0")
  case True
  then show ?thesis by (simp add: binade.simps)
next
  case False
  have "2 powi binade x \<le> (2::real) powi k"
    using binade_bounds [OF False] assms by linarith
  then have "binade x \<le> k"
    by (rule powi_le_imp)
  then show ?thesis by simp
qed

lemma fl_fin_abs_le:
  assumes "\<bar>x\<bar> \<le> 2 powi k" and "0 \<le> k"
  shows "\<bar>fl_fin x\<bar> \<le> 2 powi k"
proof -
  have e: "max (binade y - 52) (- 1074) \<le> k" if "\<bar>y\<bar> \<le> 2 powi k" for y :: real
    using binade_le [OF that] assms(2) by simp
  have "fl_fin x \<le> 2 powi k"
    using assms(1) e [OF assms(1)] by (intro fl_fin_le_powi) simp_all
  moreover have "fl_fin (- x) \<le> 2 powi k"
    using assms(1) e [of "- x"] by (intro fl_fin_le_powi) simp_all
  ultimately show ?thesis
    by (simp add: fl_fin_minus abs_le_iff)
qed

lemma fl_finite:
  assumes "\<bar>x\<bar> \<le> 2 powi k" and "0 \<le> k" and "k \<le> 1023"
  shows "fl x = Fin (fl_fin x)"
proof -
  have "\<bar>fl_fin x\<bar> \<le> MAX_VALUE"
    using fl_fin_abs_le [OF assms(1,2)] powi_le_MAX [OF assms(3)] by linarith
  then show ?thesis
    by (simp add: fl_def Let_def abs_le_iff not_less)
qed

lemma fl_not_NaN [simp]: "fl x \<noteq> NaN"
  by (simp add: fl_def Let_def)

lemma num_le_fl:
  assumes "x \<le> y"
  shows "num_le (fl x) (fl y)"
  using fl_fin_mono [OF assms] by (simp add: fl_def Let_def)


lemma fl_0 [simp]: "fl 0 = Fin 0"
  by (simp add: fl_def MAX_VALUE_def)

lemma num_le_PosInf [simp]: "num_le a PosInf \<longleftrightarrow> a \<noteq> NaN"
  by (cases a) simp_all

lemma num_le_NegInf [simp]: "num_le NegInf a \<longleftrightarrow> a \<noteq> NaN"
  by (cases a) simp_all

lemma num_le_NaN [simp]: "\<not> num_le a NaN"
  by (cases a) simp_all

lemma nonneg_cases:
  assumes "num_le (Fin 0) a"
  obtains (fin) x where "a = Fin x" and "0 \<le> x" | (inf) "a = PosInf"
  using assms by (cases a) simp_all

lemma num_le_trans: "num_le a b \<Longrightarrow> num_le b c \<Longrightarrow> num_le a c"
  by (cases a; cases b; cases c) simp_all

lemma fl_nonneg: "0 \<le> x \<Longrightarrow> num_le (Fin 0) (fl x)"
  using num_le_fl [of 0 x] by simp

lemma num_add_mono:
  assumes "num_le (Fin 0) a" and "num_le a b" and "num_le (Fin 0) c" and "num_le c d"
  shows "num_le (num_add a c) (num_add b d)"
proof -
  have b: "num_le (Fin 0) b" and d: "num_le (Fin 0) d"
    using assms num_le_trans by blast+
  show ?thesis
    using assms(1) b assms(3) d assms(2,4)
    by (elim nonneg_cases) (simp_all add: num_le_fl)
qed

lemma num_add_nonneg:
  assumes "num_le (Fin 0) a" and "num_le (Fin 0) c"
  shows "num_le (Fin 0) (num_add a c)"
  using num_add_mono [of "Fin 0" a "Fin 0" c] assms by simp

lemma num_mul_const_mono:
  assumes "num_le (Fin 0) a" and "num_le a b" and "0 < c"
  shows "num_le (num_mul a (Fin c)) (num_mul b (Fin c))"
proof -
  have b: "num_le (Fin 0) b"
    using assms num_le_trans by blast
  show ?thesis
    using assms(1) b assms(2,3)
    by (elim nonneg_cases) (simp_all add: num_le_fl)
qed

lemma num_mul_const_nonneg:
  assumes "num_le (Fin 0) a" and "0 < c"
  shows "num_le (Fin 0) (num_mul a (Fin c))"
  using num_mul_const_mono [of "Fin 0" a c] assms by simp

lemma Math_round_mono:
  assumes "num_le a b"
  shows "num_le (Math_round a) (Math_round b)"
  using assms by (cases a; cases b) (simp_all add: floor_mono)

lemma Math_round_nonneg:
  assumes "num_le (Fin 0) a"
  shows "num_le (Fin 0) (Math_round a)"
  using Math_round_mono [OF assms] by simp

lemma num_div_mono:
  assumes "num_le a b" and "0 < d"
  shows "num_le (num_div a d) (num_div b d)"
  using assms by (cases a; cases b) (simp_all add: num_le_fl divide_right_mono)

lemma num_div_nonneg:
  assumes "num_le (Fin 0) a" and "0 < d"
  shows "num_le (Fin 0) (num_div a d)"
  using num_div_mono [OF assms] by simp

lemma fl_step:
  assumes "0 \<le> x" and "x \<le> 2 powi k" and "0 \<le> k" and "k \<le> 1023"
  shows "fl x = Fin (fl_fin x) \<and> 0 \<le> fl_fin x \<and> fl_fin x \<le> 2 powi k \<and>
         \<bar>fl_fin x - x\<bar> \<le> 2 powi (k - 53)"
proof -
  have a: "\<bar>x\<bar> \<le> 2 powi k"
    using assms(1,2) by simp
  have "fl x = Fin (fl_fin x)"
    using a assms(3,4) by (rule fl_finite)
  moreover have "0 \<le> fl_fin x"
    using assms(1) by (rule fl_fin_nonneg)
  moreover have "fl_fin x \<le> 2 powi k"
    using fl_fin_abs_le [OF a assms(3)] by linarith
  moreover have "\<bar>fl_fin x - x\<bar> \<le> 2 powi (k - 53)"
    using a assms(3) by (intro fl_fin_error) simp_all
  ultimately show ?thesis
    by simp
qed

lemma total_for_base_error:
  assumes "0 \<le> b" and "b \<le> 2 ^ 20" and "0 \<le> q" and "q \<le> 100"
  shows "near (502 / 10 ^ 9) (total_for_base (Fin b) (Fin q)) (b * (1 + q / 100))"
proof -
  define r where "r = fl_fin (q / 100)"
  define f where "f = fl_fin (b * r)"
  define t where "t = fl_fin (b + f)"
  define u where "u = fl_fin (t * 1000000)"
  define n where "n = \<lfloor>u + 1 / 2\<rfloor>"
  define w where "w = fl_fin (of_int n / 1000000)"
  have "0 \<le> q / 100" and "q / 100 \<le> 2 powi 0"
    using assms(3,4) by simp_all
  from fl_step [OF this]
  have r: "fl (q / 100) = Fin r" "0 \<le> r" "r \<le> 1" "\<bar>r - q / 100\<bar> \<le> 2 powi (- 53)"
    by (simp_all add: r_def)
  have "0 \<le> b * r" and "b * r \<le> 2 powi 20"
    using assms(1,2) r(2,3) mult_mono [of b "2 ^ 20" r 1] by simp_all
  from fl_step [OF this]
  have f: "fl (b * r) = Fin f" "0 \<le> f" "f \<le> 2 ^ 20" "\<bar>f - b * r\<bar> \<le> 2 powi (- 33)"
    by (simp_all add: f_def)
  have "0 \<le> b + f" and "b + f \<le> 2 powi 21"
    using assms(1,2) f(2,3) by simp_all
  from fl_step [OF this]
  have t: "fl (b + f) = Fin t" "0 \<le> t" "t \<le> 2 ^ 21" "\<bar>t - (b + f)\<bar> \<le> 2 powi (- 32)"
    by (simp_all add: t_def)
  have "0 \<le> t * 1000000" and "t * 1000000 \<le> 2 powi 41"
    using t(2,3) by simp_all
  from fl_step [OF this]
  have u: "fl (t * 1000000) = Fin u" "0 \<le> u" "u \<le> 2 ^ 41"
    "\<bar>u - t * 1000000\<bar> \<le> 2 powi (- 12)"
    by (simp_all add: u_def)
  have n: "0 \<le> n" "\<bar>of_int n - u\<bar> \<le> 1 / 2" "of_int n \<le> u + 1 / 2"
    using u(2) unfolding n_def by linarith+
  have "0 \<le> of_int n / (1000000::real)" and "of_int n / 1000000 \<le> (2::real) powi 22"
    using n(1,3) u(3) by simp_all
  from fl_step [OF this]
  have w: "fl (of_int n / 1000000) = Fin w" "\<bar>w - of_int n / 1000000\<bar> \<le> 2 powi (- 31)"
    by (simp_all add: w_def)
  have tot: "total_for_base (Fin b) (Fin q) = Fin w"
    by (simp add: total_for_base_def Let_def r(1) f(1) t(1) u(1) n_def [symmetric] w(1))
  define e1 where "e1 = w - of_int n / 1000000"
  define e2 where "e2 = of_int n / 1000000 - u / 1000000"
  define e3 where "e3 = u / 1000000 - t"
  define e4 where "e4 = t - (b + f)"
  define e5 where "e5 = f - b * r"
  define e6 where "e6 = b * r - b * (q / 100)"
  have 1: "\<bar>e1\<bar> \<le> 1 / 2147483648"
    using w(2) by (simp add: e1_def power_int_minus)
  have 2: "\<bar>e2\<bar> \<le> 1 / 2000000"
  proof -
    have "e2 * 1000000 = of_int n - u"
      by (simp add: e2_def diff_divide_distrib)
    with n(2) show ?thesis
      by linarith
  qed
  have 3: "\<bar>e3\<bar> \<le> 1 / 4096000000"
  proof -
    have "e3 * 1000000 = u - t * 1000000"
      by (simp add: e3_def diff_divide_distrib)
    moreover have "\<bar>u - t * 1000000\<bar> \<le> 1 / 4096"
      using u(4) by (simp add: power_int_minus)
    ultimately show ?thesis
      by linarith
  qed
  have 4: "\<bar>e4\<bar> \<le> 1 / 4294967296"
    using t(4) by (simp add: e4_def power_int_minus)
  have 5: "\<bar>e5\<bar> \<le> 1 / 8589934592"
    using f(4) by (simp add: e5_def power_int_minus)
  have 6: "\<bar>e6\<bar> \<le> 1 / 8589934592"
  proof -
    have "e6 = b * (r - q / 100)"
      by (simp add: e6_def algebra_simps)
    then have "\<bar>e6\<bar> = \<bar>b\<bar> * \<bar>r - q / 100\<bar>"
      by (simp only: abs_mult)
    also have "\<dots> = b * \<bar>r - q / 100\<bar>"
      using assms(1) by simp
    also have "\<dots> \<le> 2 ^ 20 * 2 powi (- 53)"
      using assms(1,2) r(4) by (intro mult_mono) simp_all
    also have "\<dots> = 1 / 8589934592"
      by (simp add: power_int_minus)
    finally show ?thesis .
  qed
  have "w - b * (1 + q / 100) = e1 + e2 + e3 + e4 + e5 + e6"
    by (simp add: e1_def e2_def e3_def e4_def e5_def e6_def algebra_simps)
  moreover have "e1 + e2 + e3 + e4 + e5 + e6 \<le> 502 / 1000000000"
    using 1 2 3 4 5 6 unfolding abs_le_iff by linarith
  moreover have "- (502 / 1000000000) \<le> e1 + e2 + e3 + e4 + e5 + e6"
    using 1 2 3 4 5 6 unfolding abs_le_iff by linarith
  ultimately have "\<bar>w - b * (1 + q / 100)\<bar> \<le> 502 / 1000000000"
    unfolding abs_le_iff by linarith
  then have "\<bar>w - b * (1 + q / 100)\<bar> \<le> 502 / 10 ^ 9"
    by simp
  with tot show ?thesis
    by (simp add: near_def)
qed


subsection \<open>Price breakdown\<close>

lemmas fl_eval = fl_def fl_fin_def quantum_def binade.simps rne_def Let_def MAX_VALUE_def
  power_int_minus

lemma calculatePrice_total:
  "total (calculatePrice p j pct) = total_for_base (basePrice (calculatePrice p j pct)) pct"
  by (simp add: calculatePrice_def total_for_base_def Let_def)

lemma percent_finite:
  assumes "0 \<le> q" and "q \<le> MAX_VALUE"
  obtains r where "fl (q / 100) = Fin r" and "0 \<le> r"
proof -
  have "q / 100 \<le> 2 powi 1023"
    using assms(2) by (simp add: MAX_VALUE_def)
  moreover have "0 \<le> q / 100"
    using assms(1) by simp
  ultimately have "fl (q / 100) = Fin (fl_fin (q / 100)) \<and> 0 \<le> fl_fin (q / 100)"
    using fl_step [of "q / 100" 1023] by simp
  then show ?thesis
    using that by simp
qed

lemma total_for_base_mono:
  assumes "0 \<le> m" and "m \<le> b" and "0 \<le> q" and "q \<le> MAX_VALUE"
  shows "num_le (total_for_base (Fin m) (Fin q)) (total_for_base (Fin b) (Fin q))"
proof -
  obtain r where r: "fl (q / 100) = Fin r" "0 \<le> r"
    using assms(3,4) by (rule percent_finite)
  have fee: "num_le (fl (m * r)) (fl (b * r))"
    using assms(2) r(2) by (intro num_le_fl mult_right_mono)
  have fee0: "num_le (Fin 0) (fl (m * r))"
    using assms(1) r(2) by (intro fl_nonneg) simp
  have sum: "num_le (num_add (Fin m) (fl (m * r))) (num_add (Fin b) (fl (b * r)))"
    using assms(1,2) fee0 fee by (intro num_add_mono) simp_all
  have sum0: "num_le (Fin 0) (num_add (Fin m) (fl (m * r)))"
    using assms(1) fee0 by (intro num_add_nonneg) simp_all
  have "num_le (num_mul (num_add (Fin m) (fl (m * r))) (Fin 1000000))
               (num_mul (num_add (Fin b) (fl (b * r))) (Fin 1000000))"
    using sum0 sum by (rule num_mul_const_mono) simp
  then have "num_le (Math_round (num_mul (num_add (Fin m) (fl (m * r))) (Fin 1000000)))
                    (Math_round (num_mul (num_add (Fin b) (fl (b * r))) (Fin 1000000)))"
    by (rule Math_round_mono)
  then have "num_le (num_div (Math_round (num_mul (num_add (Fin m) (fl (m * r))) (Fin 1000000))) 1000000)
                    (num_div (Math_round (num_mul (num_add (Fin b) (fl (b * r))) (Fin 1000000))) 1000000)"
    by (rule num_div_mono) simp
  then show ?thesis
    by (simp add: total_for_base_def Let_def r(1))
qed

lemma total_for_base_PosInf:
  assumes "total_for_base PosInf (Fin q) \<noteq> NaN"
  shows "total_for_base PosInf (Fin q) = PosInf"
  using assms unfolding total_for_base_def Let_def
  by (cases "num_div (Fin q) 100") (simp_all split: if_splits)

lemma total_for_base_NaN [simp]: "total_for_base NaN pct = NaN"
  by (simp add: total_for_base_def)

lemma estimateCost_unrounded:
  "estimateCost pricing mb fc =
     (let e = spec_estimate pricing
                \<lparr> fileSizeMb = mb,
                  frameCount = (case fc of None \<Rightarrow> Fin 1
                                | Some n \<Rightarrow> if n = Fin 0 \<or> n = NaN then Fin 1 else n),
                  estimatedRenderSeconds = Fin 60 \<rparr> (fl 0.05)
      in e\<lparr> total := num_add (basePrice e) (platformFee e) \<rparr>)"
  by (simp add: estimateCost_def spec_estimate_def Let_def)

text \<open>
  C5, as the specification states it, fails on both functions that it cites. With a minimum
  price of \<open>15.34375\<close> SOL and a fee of 5 percent, \<^verbatim>\<open>calculatePrice\<close> returns the total
  \<open>16.110937\<close>, whereas \<open>basePrice * (1 + feeRate) = 16.1109375\<close> rounded to six decimal places
  is \<open>16.110938\<close>, the product taken exactly or in doubles: the sum of the base price and
  the fee, which the code rounds, is the double below \<open>16.1109375\<close>. And \<^verbatim>\<open>estimateCost\<close>
  returns, for the scenario's tariff and a file of 100 MB, the total \<open>0.008375390625\<close>, which
  rounding to six decimal places would change to \<open>0.008375\<close>.
\<close>

theorem total_not_rounded_product_counterexample:
  "basePrice (calculatePrice premium_tariff small_job (Fin 5)) = Fin 15.34375 \<and>
   total (calculatePrice premium_tariff small_job (Fin 5)) = fl 16.110937 \<and>
   round6 (15.34375 * (1 + 5 / 100)) = 16.110938 \<and>
   num_round6 (num_mul (Fin 15.34375) (num_add (Fin 1) (num_div (Fin 5) 100))) = fl 16.110938 \<and>
   fl 16.110937 \<noteq> fl 16.110938 \<and>
   total (estimateCost scenario_tariff (Fin 100) None) = fl 0.008375390625 \<and>
   num_round6 (total (estimateCost scenario_tariff (Fin 100) None)) = fl 0.008375 \<and>
   fl 0.008375390625 \<noteq> fl 0.008375"
proof -
  have 1: "basePrice (calculatePrice premium_tariff small_job (Fin 5)) = Fin 15.34375"
    by (simp add: calculatePrice_def premium_tariff_def small_job_def fl_eval)
  have 2: "total (calculatePrice premium_tariff small_job (Fin 5)) = fl 16.110937"
    by (simp add: calculatePrice_def premium_tariff_def small_job_def fl_eval)
  have 3: "round6 (15.34375 * (1 + 5 / 100)) = 16.110938"
    by (simp add: round6_def)
  have 4: "num_round6 (num_mul (Fin 15.34375) (num_add (Fin 1) (num_div (Fin 5) 100)))
             = fl 16.110938"
    by (simp add: num_round6_def fl_eval)
  have 5: "fl 16.110937 \<noteq> fl 16.110938"
    by (simp add: fl_eval)
  have 6: "total (estimateCost scenario_tariff (Fin 100) None) = fl 0.008375390625"
    by (simp add: estimateCost_def scenario_tariff_def fl_eval)
  have 7: "num_round6 (fl 0.008375390625) = fl 0.008375"
    by (simp add: num_round6_def fl_eval)
  have 8: "fl 0.008375390625 \<noteq> fl 0.008375"
    by (simp add: fl_eval)
  from 1 2 3 4 5 7 8 show ?thesis
    unfolding 6 by simp
qed

text \<open>
  C5, amended: in double arithmetic, for every tariff, job and fee percentage,
  \<^verbatim>\<open>calculatePrice\<close> returns the breakdown of the specification at the rate
  \<open>platformFeePercent / 100\<close>: the base price is the maximum of the sum of the three fees
  and the minimum price, the total is the sum \<open>basePrice + platformFee\<close>, not the product
  \<open>basePrice * (1 + feeRate)\<close>, rounded once to six decimal places, and every other field is
  unrounded. \<^verbatim>\<open>estimateCost\<close> computes the same fields for 60 seconds and the rate \<open>0.05\<close>,
  with an absent, zero or \<^verbatim>\<open>NaN\<close> frame count replaced by 1, and returns the sum
  \<open>basePrice + platformFee\<close> without rounding. For a base price \<open>b\<close> between 0 and \<open>2 ^ 20\<close>
  SOL and a fee of \<open>q\<close> percent between 0 and 100, the total of \<^verbatim>\<open>calculatePrice\<close> is within
  \<open>0.000000502\<close> of the exact \<open>b * (1 + q / 100)\<close>.
\<close>

theorem price_estimate_in_doubles:
  "calculatePrice pricing job pct = spec_estimate pricing job (num_div pct 100) \<and>
   estimateCost pricing mb fc =
     (let e = spec_estimate pricing
                \<lparr> fileSizeMb = mb,
                  frameCount = (case fc of None \<Rightarrow> Fin 1
                                | Some n \<Rightarrow> if n = Fin 0 \<or> n = NaN then Fin 1 else n),
                  estimatedRenderSeconds = Fin 60 \<rparr> (fl 0.05)
      in e\<lparr> total := num_add (basePrice e) (platformFee e) \<rparr>) \<and>
   (basePrice (calculatePrice pricing job pct) = Fin b \<and> 0 \<le> b \<and> b \<le> 2 ^ 20 \<and>
    pct = Fin q \<and> 0 \<le> q \<and> q \<le> 100
    \<longrightarrow> near (502 / 10 ^ 9) (total (calculatePrice pricing job pct)) (b * (1 + q / 100)))"
proof -
  have "calculatePrice pricing job pct = spec_estimate pricing job (num_div pct 100)"
    by (simp add: calculatePrice_def spec_estimate_def num_round6_def Let_def)
  moreover have "near (502 / 10 ^ 9) (total (calculatePrice pricing job pct)) (b * (1 + q / 100))"
    if "basePrice (calculatePrice pricing job pct) = Fin b" "0 \<le> b" "b \<le> 2 ^ 20"
       "pct = Fin q" "0 \<le> q" "q \<le> 100"
    using total_for_base_error [OF that(2,3,5,6)] that(1,4)
    by (simp add: calculatePrice_total)
  ultimately show ?thesis
    using estimateCost_unrounded [of pricing mb fc] by blast
qed

text \<open>
  C5, witness: the scenario, whose base price is the double \<open>1149543804886319 / 2 ^ 57\<close>
  (\<open>0.0079765625\<close>), at 5 percent.
\<close>

theorem price_estimate_in_doubles_witness:
  "basePrice (calculatePrice scenario_tariff scenario_job (Fin 5))
     = Fin (1149543804886319 / 2 ^ 57) \<and>
   near (502 / 10 ^ 9) (total (calculatePrice scenario_tariff scenario_job (Fin 5)))
        (1149543804886319 / 2 ^ 57 * (1 + 5 / 100))"
proof -
  have b: "basePrice (calculatePrice scenario_tariff scenario_job (Fin 5))
             = Fin (1149543804886319 / 2 ^ 57)"
    by (simp add: calculatePrice_def scenario_tariff_def scenario_job_def fl_eval)
  from price_estimate_in_doubles
         [of scenario_tariff scenario_job "Fin 5" _ _ "1149543804886319 / 2 ^ 57" 5,
          THEN conjunct2, THEN conjunct2] b
  show ?thesis
    by simp
qed

text \<open>
  C6, as stated, fails: with a minimum price of one millionth of a SOL and a fee of 5 percent
  the total is the minimum price itself, and with a minimum price of \<open>15.34375\<close> SOL it is
  \<open>16.110937\<close>, below \<open>15.34375 * 1.05 = 16.1109375\<close>; in both cases the total is below
  \<open>minimumPrice * (1 + feeRate)\<close>, the bound taken exactly or in doubles.
\<close>

theorem total_below_minimum_counterexample:
  "minimumPrice micro_tariff = Fin (4722366482869645 / 2 ^ 72) \<and>
   total (calculatePrice micro_tariff scenario_job (Fin 5)) = Fin (4722366482869645 / 2 ^ 72) \<and>
   \<not> at_least (4722366482869645 / 2 ^ 72 * (1 + 5 / 100))
        (total (calculatePrice micro_tariff scenario_job (Fin 5))) \<and>
   num_less (total (calculatePrice micro_tariff scenario_job (Fin 5)))
            (num_mul (minimumPrice micro_tariff) (num_add (Fin 1) (num_div (Fin 5) 100))) \<and>
   total (calculatePrice premium_tariff small_job (Fin 5)) = fl 16.110937 \<and>
   \<not> at_least (15.34375 * (1 + 5 / 100)) (total (calculatePrice premium_tariff small_job (Fin 5))) \<and>
   num_less (total (calculatePrice premium_tariff small_job (Fin 5)))
            (num_mul (minimumPrice premium_tariff) (num_add (Fin 1) (num_div (Fin 5) 100)))"
proof -
  have m: "minimumPrice micro_tariff = Fin (4722366482869645 / 2 ^ 72)"
    by (simp add: micro_tariff_def fl_eval)
  have t: "total (calculatePrice micro_tariff scenario_job (Fin 5)) = Fin (4722366482869645 / 2 ^ 72)"
    by (simp add: calculatePrice_def micro_tariff_def scenario_job_def fl_eval)
  have b: "num_less (Fin (4722366482869645 / 2 ^ 72))
             (num_mul (Fin (4722366482869645 / 2 ^ 72)) (num_add (Fin 1) (num_div (Fin 5) 100)))"
    by (simp add: fl_eval)
  have p: "total (calculatePrice premium_tariff small_job (Fin 5)) = Fin (2267412808430923 / 2 ^ 47)"
    by (simp add: calculatePrice_def premium_tariff_def small_job_def fl_eval)
  have p': "fl 16.110937 = Fin (2267412808430923 / 2 ^ 47)"
    by (simp add: fl_eval)
  have pb: "num_less (Fin (2267412808430923 / 2 ^ 47))
              (num_mul (Fin 15.34375) (num_add (Fin 1) (num_div (Fin 5) 100)))"
    by (simp add: fl_eval)
  have pm: "minimumPrice premium_tariff = Fin 15.34375"
    by (simp add: premium_tariff_def)
  show ?thesis
    unfolding m t p pm p' using b pb by (simp add: at_least_def)
qed

text \<open>
  C6, amended: for every tariff with a finite minimum price \<open>m \<ge> 0\<close>, every job and every
  finite fee of \<open>q \<ge> 0\<close> percent, if the total is not \<^verbatim>\<open>NaN\<close>: the total is at least the total
  that \<^verbatim>\<open>calculatePrice\<close> returns for the minimum price as base price
  (\<open>total_for_base minimumPrice platformFeePercent\<close>); the base price is at least the minimum
  price; when the sum of the fees is below the minimum price, the base price is the minimum
  price and the total is that least total (a floor, no error); and for \<open>m \<le> 2 ^ 20\<close> and
  \<open>q \<le> 100\<close> the total is at least \<open>m * (1 + q / 100) - 0.000000502\<close>.
\<close>

theorem total_above_minimum_total:
  assumes "minimumPrice p = Fin m" and "0 \<le> m"
    and "pct = Fin q" and "0 \<le> q" and "q \<le> MAX_VALUE"
    and "total (calculatePrice p j pct) \<noteq> NaN"
  shows "num_le (total_for_base (minimumPrice p) pct) (total (calculatePrice p j pct)) \<and>
         num_le (minimumPrice p) (basePrice (calculatePrice p j pct)) \<and>
         (num_less (num_add (num_add (fileSizeFee (calculatePrice p j pct))
                                     (frameFee (calculatePrice p j pct)))
                            (estimatedRenderFee (calculatePrice p j pct)))
                   (minimumPrice p)
          \<longrightarrow> basePrice (calculatePrice p j pct) = minimumPrice p \<and>
              total (calculatePrice p j pct) = total_for_base (minimumPrice p) pct) \<and>
         (m \<le> 2 ^ 20 \<and> q \<le> 100
          \<longrightarrow> at_least (m * (1 + q / 100) - 502 / 10 ^ 9) (total (calculatePrice p j pct)))"
proof -
  let ?c = "calculatePrice p j pct"
  let ?sub = "num_add (num_add (fileSizeFee ?c) (frameFee ?c)) (estimatedRenderFee ?c)"
  have base: "basePrice ?c = Math_max ?sub (Fin m)"
    by (simp add: calculatePrice_def Let_def assms(1))
  have tot: "total ?c = total_for_base (basePrice ?c) (Fin q)"
    by (simp add: calculatePrice_total assms(3))
  obtain r where r: "fl (q / 100) = Fin r" "0 \<le> r"
    using assms(4,5) by (rule percent_finite)
  have "total_for_base (Fin 0) (Fin q) = Fin 0"
    by (simp add: total_for_base_def Let_def r(1))
  then have floor0: "num_le (Fin 0) (total_for_base (Fin m) (Fin q))"
    using total_for_base_mono [of 0 m q] assms(2,4,5) by simp
  have nn: "total_for_base (Fin m) (Fin q) \<noteq> NaN"
    using floor0 by auto
  have sub: "?sub \<noteq> NaN"
    using assms(6) unfolding tot base by (cases ?sub) auto
  have a: "num_le (total_for_base (Fin m) (Fin q)) (total ?c)"
  proof (cases ?sub)
    case NaN
    with sub show ?thesis by simp
  next
    case PosInf
    then have "basePrice ?c = PosInf"
      by (simp add: base)
    with assms(6) tot have "total ?c = PosInf"
      using total_for_base_PosInf [of q] by simp
    with nn show ?thesis by simp
  next
    case NegInf
    then have "basePrice ?c = Fin m"
      by (simp add: base)
    with tot nn show ?thesis
      by (cases "total_for_base (Fin m) (Fin q)") simp_all
  next
    case (Fin s)
    then have "basePrice ?c = Fin (max s m)"
      by (simp add: base)
    with tot total_for_base_mono [of m "max s m" q] assms(2,4,5) show ?thesis
      by simp
  qed
  have b: "num_le (Fin m) (basePrice ?c)"
    using sub unfolding base by (cases ?sub) simp_all
  have c: "num_less ?sub (Fin m) \<longrightarrow> basePrice ?c = Fin m"
    unfolding base by (cases ?sub) (simp_all add: max_def)
  have d: "at_least (m * (1 + q / 100) - 502 / 10 ^ 9) (total ?c)" if "m \<le> 2 ^ 20" "q \<le> 100"
  proof -
    have "near (502 / 10 ^ 9) (total_for_base (Fin m) (Fin q)) (m * (1 + q / 100))"
      using assms(2) that(1) assms(4) that(2) by (rule total_for_base_error)
    then obtain w where w: "total_for_base (Fin m) (Fin q) = Fin w"
        "\<bar>w - m * (1 + q / 100)\<bar> \<le> 502 / 10 ^ 9"
      by (cases "total_for_base (Fin m) (Fin q)") (simp_all add: near_def)
    show ?thesis
    proof (cases "total ?c")
      case (Fin y)
      with a w(1) have "w \<le> y"
        by simp
      moreover have "m * (1 + q / 100) - 502 / 10 ^ 9 \<le> w"
        using w(2) unfolding abs_le_iff by linarith
      ultimately show ?thesis
        using Fin by (simp add: at_least_def)
    qed (use a w(1) assms(6) in \<open>simp_all add: at_least_def\<close>)
  qed
  from a b c d tot show ?thesis
    by (simp add: assms(1,3))
qed

text \<open>
  C6, witness: the scenario's tariff, whose minimum price is the double
  \<open>5764607523034235 / 2 ^ 60\<close> (\<open>0.005\<close>), at 5 percent. The least total is \<open>0.00525\<close>; a job
  whose fees sum to less than the minimum price is charged it, and the scenario's job is
  charged more.
\<close>

theorem total_above_minimum_total_witness:
  "num_less (num_add (num_add (fileSizeFee (calculatePrice scenario_tariff small_job (Fin 5)))
                              (frameFee (calculatePrice scenario_tariff small_job (Fin 5))))
                     (estimatedRenderFee (calculatePrice scenario_tariff small_job (Fin 5))))
            (minimumPrice scenario_tariff) \<and>
   basePrice (calculatePrice scenario_tariff small_job (Fin 5)) = minimumPrice scenario_tariff \<and>
   total (calculatePrice scenario_tariff small_job (Fin 5))
     = total_for_base (minimumPrice scenario_tariff) (Fin 5) \<and>
   total_for_base (minimumPrice scenario_tariff) (Fin 5) = fl 0.00525 \<and>
   num_le (total_for_base (minimumPrice scenario_tariff) (Fin 5))
          (total (calculatePrice scenario_tariff scenario_job (Fin 5))) \<and>
   at_least (5764607523034235 / 2 ^ 60 * (1 + 5 / 100) - 502 / 10 ^ 9)
            (total (calculatePrice scenario_tariff scenario_job (Fin 5)))"
proof -
  have m: "minimumPrice scenario_tariff = Fin (5764607523034235 / 2 ^ 60)"
    by (simp add: scenario_tariff_def fl_eval)
  have below: "num_less (num_add (num_add (fileSizeFee (calculatePrice scenario_tariff small_job (Fin 5)))
                              (frameFee (calculatePrice scenario_tariff small_job (Fin 5))))
                     (estimatedRenderFee (calculatePrice scenario_tariff small_job (Fin 5))))
            (minimumPrice scenario_tariff)"
    by (simp add: calculatePrice_def scenario_tariff_def small_job_def fl_eval)
  have t1: "total (calculatePrice scenario_tariff small_job (Fin 5)) \<noteq> NaN"
    by (simp add: calculatePrice_def scenario_tariff_def small_job_def fl_eval)
  have t2: "total (calculatePrice scenario_tariff scenario_job (Fin 5)) \<noteq> NaN"
    by (simp add: calculatePrice_def scenario_tariff_def scenario_job_def fl_eval)
  have f: "total_for_base (Fin (5764607523034235 / 2 ^ 60)) (Fin 5) = fl 0.00525"
    by (simp add: total_for_base_def fl_eval)
  have q: "(5::real) \<le> MAX_VALUE"
    by (simp add: MAX_VALUE_def)
  from total_above_minimum_total [OF m _ refl _ q t1] below
       total_above_minimum_total [OF m _ refl _ q t2] f
  show ?thesis
    by (simp add: m)
qed

text \<open>
  C7, as stated, fails on the total and on the platform fee: \<^verbatim>\<open>calculatePrice\<close> returns the
  total \<open>0.008375\<close>, which is not \<open>0.008376\<close>, and the platform fee \<open>0.000398828125\<close>, which
  is \<open>0.0003988\<close> to seven places, not \<open>0.0003989\<close>.
\<close>

theorem scenario_total_counterexample:
  "total (calculatePrice scenario_tariff scenario_job (Fin 5)) = fl 0.008375 \<and>
   \<not> agrees_to 6 (total (calculatePrice scenario_tariff scenario_job (Fin 5))) 0.008376 \<and>
   \<not> agrees_to 7 (platformFee (calculatePrice scenario_tariff scenario_job (Fin 5))) 0.0003989"
  by (simp add: calculatePrice_def scenario_tariff_def scenario_job_def agrees_to_def fl_eval)

text \<open>
  C7, amended: for the scenario's tariff, the job of 100 MB, one frame and 60 seconds, and a
  fee of 5 percent, \<^verbatim>\<open>calculatePrice\<close> returns the size fee \<open>0.0009765625\<close> (\<open>0.000977\<close> to six
  places), the frame fee \<open>0.001\<close>, the time fee \<open>0.006\<close>, the base price \<open>0.0079765625\<close>
  (\<open>0.007977\<close> to six places, above the minimum \<open>0.005\<close>), the platform fee \<open>0.000398828125\<close>
  (\<open>0.0003988\<close> to seven places) and the total \<open>0.008375\<close>, each the double that the literal
  denotes; \<^verbatim>\<open>estimateCost\<close> returns the same fields with the unrounded total
  \<open>0.008375390625\<close>.
\<close>

theorem scenario_price_breakdown:
  "calculatePrice scenario_tariff scenario_job (Fin 5) =
     \<lparr> basePrice = fl 0.0079765625, fileSizeFee = fl 0.0009765625, frameFee = fl 0.001,
       estimatedRenderFee = fl 0.006, platformFee = fl 0.000398828125, total = fl 0.008375 \<rparr> \<and>
   agrees_to 6 (fileSizeFee (calculatePrice scenario_tariff scenario_job (Fin 5))) 0.000977 \<and>
   agrees_to 6 (basePrice (calculatePrice scenario_tariff scenario_job (Fin 5))) 0.007977 \<and>
   agrees_to 7 (platformFee (calculatePrice scenario_tariff scenario_job (Fin 5))) 0.0003988 \<and>
   num_less (minimumPrice scenario_tariff)
     (num_add (num_add (fileSizeFee (calculatePrice scenario_tariff scenario_job (Fin 5)))
                       (frameFee (calculatePrice scenario_tariff scenario_job (Fin 5))))
              (estimatedRenderFee (calculatePrice scenario_tariff scenario_job (Fin 5)))) \<and>
   estimateCost scenario_tariff (Fin 100) (Some (Fin 1)) =
     (calculatePrice scenario_tariff scenario_job (Fin 5))\<lparr> total := fl 0.008375390625 \<rparr>"
proof -
  have c: "calculatePrice scenario_tariff scenario_job (Fin 5) =
     \<lparr> basePrice = fl 0.0079765625, fileSizeFee = fl 0.0009765625, frameFee = fl 0.001,
       estimatedRenderFee = fl 0.006, platformFee = fl 0.000398828125, total = fl 0.008375 \<rparr>"
    by (simp add: calculatePrice_def scenario_tariff_def scenario_job_def fl_eval)
  have e: "estimateCost scenario_tariff (Fin 100) (Some (Fin 1)) =
     \<lparr> basePrice = fl 0.0079765625, fileSizeFee = fl 0.0009765625, frameFee = fl 0.001,
       estimatedRenderFee = fl 0.006, platformFee = fl 0.000398828125,
       total = fl 0.008375390625 \<rparr>"
    by (simp add: estimateCost_def scenario_tariff_def fl_eval)
  show ?thesis
    unfolding c e by (simp add: agrees_to_def scenario_tariff_def fl_eval)
qed

subsection \<open>Payment verification\<close>





subsection \<open>Paying for a render\<close>

text \<open>
  C1, as stated, fails: a quote whose \<^verbatim>\<open>expiresAt\<close> is one millisecond in the past is paid.
  \<^verbatim>\<open>sendPayment\<close> is called and, the hub having confirmed, the job id is returned.
\<close>

theorem payForRender_expired_counterexample:
  "quoteExpired 1700000000000 scenario_quote \<and>
   payForRender True paying_env scenario_quote =
     ([SendPayment ''ProviderWallet'' (fl 0.008375) ''rayment:job-1'',
       PostRenderPay ''job-1'' ''tx-signature''],
      Inr ''job-1'')"
  by (simp add: quoteExpired_def payForRender_def paying_env_def scenario_quote_def)

text \<open>
  C1, amended: \<^verbatim>\<open>payForRender\<close> does not read \<^verbatim>\<open>expiresAt\<close>. With a private key configured, an
  expired quote is handled exactly as the same quote not yet expired, and the first outgoing
  call is \<^verbatim>\<open>sendPayment(payTo, price, memo)\<close>; the only failure before any payment call is
  the missing private key.
\<close>

theorem payForRender_pays_expired_quote:
  "quoteExpired now payment \<Longrightarrow>
   (\<exists>rest. fst (payForRender True env payment)
              = SendPayment (payTo payment) (price payment) (memo payment) # rest)
   \<and> payForRender True env payment = payForRender True env (payment\<lparr> expiresAt := now + 1 \<rparr>)
   \<and> payForRender False env payment = ([], Inl ''Private key required for payments'')"
  by (simp add: payForRender_def Let_def split: sum.splits)

text \<open>C1, witness: the quote of the counterexample, expired, and the payment call made for it.\<close>

theorem payForRender_pays_expired_quote_witness:
  "quoteExpired 1700000000000 scenario_quote \<and>
   (\<exists>rest. fst (payForRender True paying_env scenario_quote)
              = SendPayment ''ProviderWallet'' (fl 0.008375) ''rayment:job-1'' # rest)"
  using payForRender_pays_expired_quote [of 1700000000000 scenario_quote paying_env, THEN conjunct1]
  by (simp add: quoteExpired_def scenario_quote_def)

subsection \<open>Polling\<close>

lemma poll_loop_error:
  "\<forall>p \<in> set pre. keeps_polling options t0 p \<Longrightarrow>
   poll_loop t0 (timeout_of options) (pre @ (Inl msg, now) # rest) n seen
     = Some \<lparr> outcome = Inl msg, requests = n + length pre + 1,
              progress = seen @ concat (map polled_job pre) \<rparr>"
proof (induction pre arbitrary: n seen)
  case Nil
  then show ?case by simp
next
  case (Cons p pre)
  obtain answer t where p: "p = (answer, t)"
    by (cases p)
  from Cons.prems have kp: "keeps_polling options t0 p"
    and others: "\<forall>q \<in> set pre. keeps_polling options t0 q"
    by simp_all
  from kp p obtain job where job: "answer = Inr job" "job_status job \<noteq> Completed"
      "job_status job \<noteq> Failed" "\<not> (t - t0 > timeout_of options)"
    by (auto simp: keeps_polling_def split: sum.splits)
  show ?case
    using Cons.IH [OF others, of "Suc n" "seen @ [job]"] p job
    by (simp add: polled_job_def)
qed

lemma poll_loop_returns_completed:
  "poll_loop t0 t ps n seen = Some w \<Longrightarrow> outcome w = Inr job \<Longrightarrow> job_status job = Completed"
  by (induction t0 t ps n seen rule: poll_loop.induct) (auto split: sum.splits if_splits)

text \<open>
  C9, as stated, fails: the first status request is answered with a network error, the second
  would have found the job completed; \<^verbatim>\<open>waitForCompletion\<close> sends one request and throws the
  network error itself, whose message is not "status check exhausted retries".
\<close>

theorem poll_error_counterexample:
  "waitForCompletion default_wait 0 [(Inl ''ECONNRESET'', 10), (Inr completed_job, 2010)]
     = Some \<lparr> outcome = Inl ''ECONNRESET'', requests = 1, progress = [] \<rparr>
   \<and> ''ECONNRESET'' \<noteq> ''status check exhausted retries''"
  by (simp add: waitForCompletion_def)

text \<open>
  C9, amended: in \<^verbatim>\<open>waitForCompletion\<close> every iteration sends one status request, and the error
  of a request is not retried: after any number of iterations that found the job unfinished
  within the deadline, a request that fails ends the loop at once: the error is thrown with
  its own message, and no further request is sent.
\<close>

theorem poll_error_not_retried:
  "\<forall>p \<in> set pre. keeps_polling options t0 p \<Longrightarrow>
   waitForCompletion options t0 (pre @ (Inl msg, now) # rest)
     = Some \<lparr> outcome = Inl msg, requests = length pre + 1,
              progress = concat (map polled_job pre) \<rparr>"
  unfolding waitForCompletion_def
  using poll_loop_error [of pre options t0 msg now rest 0 "[]"] by simp

text \<open>
  C9, witness: one poll finds the job rendering, the next request fails, the one after it
  would have found the job completed.
\<close>

theorem poll_error_not_retried_witness:
  "keeps_polling default_wait 0 (Inr rendering_job, 10) \<and>
   waitForCompletion default_wait 0
       ([(Inr rendering_job, 10)] @ (Inl ''ECONNRESET'', 2010) # [(Inr completed_job, 4010)])
     = Some \<lparr> outcome = Inl ''ECONNRESET'', requests = 2, progress = [rendering_job] \<rparr>"
  using poll_error_not_retried
          [of "[(Inr rendering_job, 10)]" default_wait 0 "''ECONNRESET''" 2010
              "[(Inr completed_job, 4010)]"]
  by (simp add: keeps_polling_def rendering_job_def timeout_of_def default_wait_def
        polled_job_def)

subsection \<open>One file of a batch\<close>

lemma updateFileStatus_simps:
  "updateFileStatus h u \<noteq> []"
  "last (updateFileStatus h u) = u (last h)"
  "map s_status (updateFileStatus h u) = map s_status h @ [s_status (u (last h))]"
  by (simp_all add: updateFileStatus_def)

lemma stages_foldl_update:
  "h \<noteq> [] \<Longrightarrow>
   foldl (\<lambda>h j. updateFileStatus h
            (\<lambda>st. st\<lparr> s_status := FileRendering, s_progress := pr j \<rparr>)) h js \<noteq> [] \<and>
   map s_status (foldl (\<lambda>h j. updateFileStatus h
                          (\<lambda>st. st\<lparr> s_status := FileRendering, s_progress := pr j \<rparr>)) h js)
     = map s_status h @ replicate (length js) FileRendering"
proof (induction js arbitrary: h)
  case Nil
  then show ?case by simp
next
  case (Cons j js)
  have ne: "updateFileStatus h (\<lambda>st. st\<lparr> s_status := FileRendering, s_progress := pr j \<rparr>) \<noteq> []"
    by (simp add: updateFileStatus_def)
  show ?case
    using Cons.IH [OF ne] by (simp add: updateFileStatus_def replicate_append_same)
qed

lemma processFile_file:
  "processFile hs opf env f = Some (r, h) \<Longrightarrow> r_file r = f"
  by (auto simp: processFile_def processFile_try_def Let_def
           split: option.splits sum.splits if_splits prod.splits)

text \<open>
  C8, as stated, fails: the hub reports the job completed, the download is answered with an
  error, and the file ends in the status \<^verbatim>\<open>'failed'\<close>; the status \<^verbatim>\<open>'completed'\<close> is never
  reported for it, and its result carries the error and nothing else.
\<close>

theorem download_failure_counterexample:
  "map_option (\<lambda>(r, h). (r, map s_status h, s_error (last h)))
     (processFile True (\<lambda>f. ''out/scene.png'') download_fails_env ''scene.blend'')
   = Some (\<lparr> r_file = ''scene.blend'', r_outputPath = None, r_jobId = None, r_cost = None,
             r_renderTime = None, r_error = Some ''Request failed with status code 500'' \<rparr>,
           [FilePending, FileUploading, FilePaying, FileRendering, FileRendering,
            FileRendering, FileDownloading, FileFailed],
           Some ''Request failed with status code 500'')"
  by (simp add: processFile_def processFile_try_def download_fails_env_def payForRender_def
        paying_env_def scenario_quote_def waitForCompletion_def timeout_of_def rendering_job_def
        completed_job_def downloadResult_def updateFileStatus_def pending_status_def Let_def)

text \<open>
  C8, amended: when \<^verbatim>\<open>waitForCompletion\<close> has returned the job, whose remote status is then
  completed, and \<^verbatim>\<open>downloadResult\<close> throws, \<^verbatim>\<open>processFile\<close> reports the file as failed: the
  result holds the file and the message of the download error only, and the status of the
  file goes through pending, uploading, paying, rendering, downloading and ends in
  \<^verbatim>\<open>'failed'\<close> with that message; \<^verbatim>\<open>'failed'\<close> is the only terminal status the file ever has.
  The callback of the batch appends that result to \<^verbatim>\<open>failed\<close> when the message is not empty;
  a result whose message is the empty string is appended to \<^verbatim>\<open>successful\<close>.
\<close>

theorem download_failure_reported_failed:
  assumes "existsSync env" and "requestRender env = Inr payment"
    and "snd (payForRender hs (pay env) payment) = Inr jid"
    and "waitForCompletion \<lparr> pollInterval = None, timeout = None \<rparr> (startTime env) (polls env)
           = Some w"
    and "outcome w = Inr job"
    and "downloadResult (apiGet env) (writeFileSync env) (opf filePath) = Inl msg"
  shows "job_status job = Completed \<and>
    (\<exists>h. processFile hs opf env filePath
            = Some (\<lparr> r_file = filePath, r_outputPath = None, r_jobId = None, r_cost = None,
                      r_renderTime = None, r_error = Some msg \<rparr>, h)
        \<and> map s_status h = [FilePending, FileUploading, FilePaying, FileRendering]
                             @ replicate (length (progress w)) FileRendering
                             @ [FileDownloading, FileFailed]
        \<and> s_error (last h) = Some msg)
    \<and> failed (on_settled b i filePath
                     \<lparr> r_file = filePath, r_outputPath = None, r_jobId = None, r_cost = None,
                       r_renderTime = None, r_error = Some msg \<rparr> s)
            = (if msg \<noteq> []
               then failed s @ [\<lparr> r_file = filePath, r_outputPath = None, r_jobId = None,
                                   r_cost = None, r_renderTime = None, r_error = Some msg \<rparr>]
               else failed s)
        \<and> successful (on_settled b i filePath
                     \<lparr> r_file = filePath, r_outputPath = None, r_jobId = None, r_cost = None,
                       r_renderTime = None, r_error = Some msg \<rparr> s)
            = (if msg \<noteq> [] then successful s
               else successful s @ [\<lparr> r_file = filePath, r_outputPath = None, r_jobId = None,
                                       r_cost = None, r_renderTime = None,
                                       r_error = Some msg \<rparr>])"
proof -
  have compl: "job_status job = Completed"
    using assms(4,5) unfolding waitForCompletion_def by (rule poll_loop_returns_completed)
  let ?h1 = "updateFileStatus [pending_status filePath] (\<lambda>st. st\<lparr> s_status := FileUploading \<rparr>)"
  let ?h2 = "updateFileStatus ?h1
               (\<lambda>st. st\<lparr> s_status := FilePaying, s_jobId := Some (jobId payment),
                          s_cost := Some (price payment) \<rparr>)"
  let ?h3 = "updateFileStatus ?h2 (\<lambda>st. st\<lparr> s_status := FileRendering \<rparr>)"
  let ?h4 = "foldl (\<lambda>h j. updateFileStatus h
                      (\<lambda>st. st\<lparr> s_status := FileRendering,
                                 s_progress := (if job_status j = Rendering then Some (Fin 50)
                                                else None) \<rparr>)) ?h3 (progress w)"
  let ?h5 = "updateFileStatus ?h4 (\<lambda>st. st\<lparr> s_status := FileDownloading \<rparr>)"
  let ?h6 = "updateFileStatus ?h5 (\<lambda>st. st\<lparr> s_status := FileFailed, s_error := Some msg \<rparr>)"
  have h3: "?h3 \<noteq> []"
    "map s_status ?h3 = [FilePending, FileUploading, FilePaying, FileRendering]"
    by (simp_all add: updateFileStatus_def pending_status_def)
  have h4: "map s_status ?h4 = map s_status ?h3 @ replicate (length (progress w)) FileRendering"
    using stages_foldl_update
            [OF h3(1), of "\<lambda>j. if job_status j = Rendering then Some (Fin 50) else None" "progress w"]
    by simp
  have h6: "map s_status ?h6 = [FilePending, FileUploading, FilePaying, FileRendering]
                                 @ replicate (length (progress w)) FileRendering
                                 @ [FileDownloading, FileFailed]"
    "s_error (last ?h6) = Some msg"
    using h4 h3(2) by (simp_all add: updateFileStatus_simps)
  have tried: "processFile_try hs opf env filePath [pending_status filePath]
                 = Some (Inl msg, ?h5)"
    using assms by (simp add: processFile_try_def Let_def)
  have pf: "processFile hs opf env filePath
          = Some (\<lparr> r_file = filePath, r_outputPath = None, r_jobId = None, r_cost = None,
                    r_renderTime = None, r_error = Some msg \<rparr>, ?h6)"
    by (simp add: processFile_def tried)
  have lists: "failed (on_settled b i filePath
                     \<lparr> r_file = filePath, r_outputPath = None, r_jobId = None, r_cost = None,
                       r_renderTime = None, r_error = Some msg \<rparr> s)
            = (if msg \<noteq> []
               then failed s @ [\<lparr> r_file = filePath, r_outputPath = None, r_jobId = None,
                                   r_cost = None, r_renderTime = None, r_error = Some msg \<rparr>]
               else failed s)"
    "successful (on_settled b i filePath
                     \<lparr> r_file = filePath, r_outputPath = None, r_jobId = None, r_cost = None,
                       r_renderTime = None, r_error = Some msg \<rparr> s)
            = (if msg \<noteq> [] then successful s
               else successful s @ [\<lparr> r_file = filePath, r_outputPath = None, r_jobId = None,
                                       r_cost = None, r_renderTime = None,
                                       r_error = Some msg \<rparr>])"
    by (simp_all add: on_settled_def truthy_def Let_def)
  from compl h6 pf lists show ?thesis by blast
qed

text \<open>
  C8, witness: the environment of the counterexample; the file exists, the job is returned
  completed after two polls, the download fails, and the callback of a batch that has
  recorded nothing yet appends the result to \<^verbatim>\<open>failed\<close>.
\<close>

theorem download_failure_reported_failed_witness:
  "existsSync download_fails_env \<and>
   apiGet download_fails_env = Inl ''Request failed with status code 500'' \<and>
   job_status completed_job = Completed \<and>
   (\<exists>h. processFile True (\<lambda>f. ''out/scene.png'') download_fails_env ''scene.blend''
           = Some (download_failure ''scene.blend'', h)
       \<and> map s_status h = [FilePending, FileUploading, FilePaying, FileRendering, FileRendering,
                            FileRendering, FileDownloading, FileFailed]
       \<and> s_error (last h) = Some ''Request failed with status code 500'') \<and>
   failed (on_settled False 0 ''scene.blend'' (download_failure ''scene.blend'')
             \<lparr> pc = Awaiting [0], queue = [], activePromises = [(''scene.blend'', 0)],
               inflight = [(0, ''scene.blend'')], successful = [], failed = [],
               started = 1 \<rparr>)
     = [download_failure ''scene.blend'']"
  using download_failure_reported_failed
          [of download_fails_env scenario_quote True "''job-1''"
              "\<lparr> outcome = Inr completed_job, requests = 2,
                 progress = [rendering_job, completed_job] \<rparr>"
              completed_job "\<lambda>f. ''out/scene.png''" "''scene.blend''"
              "''Request failed with status code 500''" False 0
              "\<lparr> pc = Awaiting [0], queue = [], activePromises = [(''scene.blend'', 0)],
                 inflight = [(0, ''scene.blend'')], successful = [], failed = [],
                 started = 1 \<rparr>"]
  by (simp add: download_fails_env_def payForRender_def paying_env_def scenario_quote_def
        waitForCompletion_def timeout_of_def rendering_job_def completed_job_def
        downloadResult_def numeral_2_eq_2 download_failure_def on_settled_def truthy_def)

subsection \<open>The batch scheduler: steps\<close>

text \<open>The steps of \<^const>\<open>successors\<close>, one case for each.\<close>

lemma step_cases [consumes 1, case_names outer_enter outer_exit inner_start inner_await inner_skip settle resume]:
  assumes "step w N b s s'"
  obtains
    "pc s = Outer" "queue s \<noteq> [] \<or> activePromises s \<noteq> []" "s' = s\<lparr> pc := Inner \<rparr>"
  | "pc s = Outer" "queue s = []" "activePromises s = []" "s' = s\<lparr> pc := Returned \<rparr>"
  | f rest where "pc s = Inner" "queue s = f # rest" "int (length (activePromises s)) < N"
      "s' = start_next f rest s"
  | "pc s = Inner" "\<not> (queue s \<noteq> [] \<and> int (length (activePromises s)) < N)"
      "activePromises s \<noteq> []" "s' = s\<lparr> pc := Awaiting (map snd (activePromises s)) \<rparr>"
  | "pc s = Inner" "\<not> (queue s \<noteq> [] \<and> int (length (activePromises s)) < N)"
      "activePromises s = []" "s' = s\<lparr> pc := Outer \<rparr>"
  | waited i f r h where "pc s = Awaiting waited" "(i, f) \<in> set (inflight s)"
      "processFile (hasSolana w) (outputPathOf w) (jobs w i) f = Some (r, h)"
      "s' = on_settled b i f r s"
  | waited i where "pc s = Awaiting waited" "i \<in> set waited" "i \<notin> fst ` set (inflight s)"
      "s' = s\<lparr> pc := Outer \<rparr>"
proof (cases "pc s")
  case Outer
  with assms show ?thesis
    by (auto simp: step_def successors_def split: if_splits intro: that(1,2))
next
  case Inner
  with assms show ?thesis
    apply (auto simp: step_def successors_def after_inner_def split: if_splits list.splits)
    using that(3,4,5) by auto
next
  case (Awaiting waited)
  with assms consider
    "s' \<in> set (settlements w b s)" | "race_settled waited s" "s' = s\<lparr> pc := Outer \<rparr>"
    by (auto simp: step_def successors_def split: if_splits)
  then show ?thesis
  proof cases
    case 1
    then obtain i f where mem: "(i, f) \<in> set (inflight s)"
      and s': "s' \<in> set (case processFile (hasSolana w) (outputPathOf w) (jobs w i) f of
                           None \<Rightarrow> [] | Some (r, h) \<Rightarrow> [on_settled b i f r s])"
      by (auto simp: settlements_def)
    from s' obtain r h where "processFile (hasSolana w) (outputPathOf w) (jobs w i) f = Some (r, h)"
      "s' = on_settled b i f r s"
      by (cases "processFile (hasSolana w) (outputPathOf w) (jobs w i) f") auto
    with Awaiting mem show ?thesis by (intro that(6))
  next
    case 2
    then obtain i where "i \<in> set waited" "i \<notin> fst ` set (inflight s)"
      unfolding race_settled_def by (metis (mono_tags, lifting) filter_False)
    with Awaiting 2 show ?thesis by (intro that(7))
  qed
next
  case Returned
  with assms show ?thesis by (simp add: step_def successors_def)
qed

subsection \<open>The batch scheduler: invariants\<close>

lemma set_update_subset: "set (AList.update k v al) \<subseteq> insert (k, v) (set al)"
  by (induction al) auto

lemma length_update_le: "length (AList.update k v al) \<le> Suc (length al)"
  by (induction al) auto

lemma set_delete_eq: "set (AList.delete k al) = {p \<in> set al. fst p \<noteq> k}"
  by (induction al) auto

lemma length_delete_le: "length (AList.delete k al) \<le> length al"
  by (induction al) auto

lemma renderBatch_enter_Inr:
  "renderBatch_enter w options = Inr s \<longleftrightarrow>
     renderBatch_start options = Inr s \<and> ensure_outputDir w = None"
  by (auto simp: renderBatch_enter_def split: sum.splits option.splits)

lemma sched_inv_start:
  "renderBatch_start options = Inr s \<Longrightarrow> sched_inv N s"
  by (auto simp: renderBatch_start_def sched_inv_def split: if_splits)

lemma sched_inv_step:
  assumes "step w N b s s'" and "sched_inv N s"
  shows "sched_inv N s'"
  using assms(1)
proof (cases rule: step_cases)
  case outer_enter
  with assms(2) show ?thesis by (auto simp: sched_inv_def)
next
  case outer_exit
  with assms(2) show ?thesis by (auto simp: sched_inv_def)
next
  case (inner_start f rest)
  have "\<And>g j. (g, j) \<in> set (AList.update f (started s) (activePromises s)) \<Longrightarrow>
           (g, j) = (f, started s) \<or> (g, j) \<in> set (activePromises s)"
    using set_update_subset[of f "started s" "activePromises s"] by auto
  moreover have "int (length (AList.update f (started s) (activePromises s))) \<le> max N 0"
    using length_update_le[of f "started s" "activePromises s"] inner_start(3) by linarith
  ultimately show ?thesis
    using assms(2) inner_start by (fastforce simp: sched_inv_def start_next_def less_Suc_eq)
next
  case inner_await
  with assms(2) show ?thesis by (auto simp: sched_inv_def)
next
  case inner_skip
  with assms(2) show ?thesis by (auto simp: sched_inv_def)
next
  case (settle waited i f r h)
  have len: "int (length (AList.delete f (activePromises s))) \<le> max N 0"
    using length_delete_le[of f "activePromises s"] assms(2) by (simp add: sched_inv_def)
  have act: "(i', g) \<in> set (filter (\<lambda>p. fst p \<noteq> i) (inflight s))"
    if "(g, i') \<in> set (AList.delete f (activePromises s))" for g i'
  proof -
    from that have mem: "(g, i') \<in> set (activePromises s)" and gf: "g \<noteq> f"
      by (auto simp: set_delete_eq)
    from mem assms(2) have inf: "(i', g) \<in> set (inflight s)"
      by (auto simp: sched_inv_def)
    have "i' \<noteq> i"
    proof
      assume "i' = i"
      with inf settle(2) assms(2) have "g = f"
        by (auto simp: sched_inv_def dest: eq_key_imp_eq_value)
      with gf show False by simp
    qed
    with inf show ?thesis by simp
  qed
  show ?thesis
    using assms(2) settle(1,4) len act
    by (auto simp: sched_inv_def on_settled_def Let_def distinct_map_filter)
next
  case (resume waited i)
  with assms(2) show ?thesis by (auto simp: sched_inv_def)
qed

lemma reachable_sched_inv:
  "reachable w options s \<Longrightarrow> sched_inv (concurrency_of options) s"
  by (induction rule: reachable.induct)
     (auto simp: renderBatch_enter_Inr intro: sched_inv_start sched_inv_step)




lemma race_settled_pc [simp]: "race_settled waited (s\<lparr> pc := x \<rparr>) = race_settled waited s"
  by (simp add: race_settled_def)






lemma update_fresh: "k \<notin> fst ` set al \<Longrightarrow> AList.update k v al = al @ [(k, v)]"
  by (induction al) auto

lemma mset_remove_id:
  "distinct (map fst xs) \<Longrightarrow> (i, f) \<in> set xs \<Longrightarrow>
   mset (map snd (filter (\<lambda>p. fst p \<noteq> i) xs)) + {#f#} = mset (map snd xs)"
proof (induction xs)
  case Nil
  then show ?case by simp
next
  case (Cons x xs)
  show ?case
  proof (cases "fst x = i")
    case True
    with Cons.prems have "x = (i, f)"
      by (cases x) (auto simp: rev_image_eqI)
    moreover from True Cons.prems have "filter (\<lambda>p. fst p \<noteq> i) xs = xs"
      by (auto simp: filter_id_conv rev_image_eqI)
    ultimately show ?thesis by simp
  next
    case False
    with Cons.prems have "(i, f) \<in> set xs" and "distinct (map fst xs)"
      by auto
    with Cons.IH False show ?thesis by simp
  qed
qed

lemma delete_swapped:
  assumes "distinct (map fst xs)" and "distinct (map snd xs)" and "(i, f) \<in> set xs"
  shows "AList.delete f (map (\<lambda>p. (snd p, fst p)) xs)
           = map (\<lambda>p. (snd p, fst p)) (filter (\<lambda>p. fst p \<noteq> i) xs)"
proof -
  have same: "(snd p \<noteq> f) = (fst p \<noteq> i)" if "p \<in> set xs" for p
  proof -
    obtain j g where p: "p = (j, g)" by (cases p)
    from assms(1) that p assms(3) have "j = i \<Longrightarrow> g = f"
      by (auto dest: eq_key_imp_eq_value)
    moreover have "g = f \<Longrightarrow> j = i"
    proof -
      assume "g = f"
      from assms(2) have "inj_on snd (set xs)"
        by (simp add: distinct_map)
      from inj_onD [OF this, of "(j, g)" "(i, f)"] \<open>g = f\<close> that p assms(3)
      show "j = i" by simp
    qed
    ultimately show ?thesis using p by auto
  qed
  have "AList.delete f (map (\<lambda>p. (snd p, fst p)) xs)
          = map (\<lambda>p. (snd p, fst p)) (filter (\<lambda>p. snd p \<noteq> f) xs)"
    by (induction xs) auto
  also have "filter (\<lambda>p. snd p \<noteq> f) xs = filter (\<lambda>p. fst p \<noteq> i) xs"
    using same by (intro filter_cong) auto
  finally show ?thesis .
qed

lemma partition_inv_start:
  "renderBatch_start options = Inr s \<Longrightarrow> partition_inv (files options) b s"
  by (auto simp: renderBatch_start_def partition_inv_def split: if_splits)

lemma inflight_files_distinct:
  assumes "partition_inv fs b s" and "distinct fs"
  shows "distinct (map snd (inflight s))" and "set (map snd (inflight s)) \<subseteq> set (take (started s) fs)"
proof -
  let ?d = "map r_file (successful s @ failed s)"
  from assms(1) have eq: "mset (?d @ map snd (inflight s)) = mset (take (started s) fs)"
    unfolding partition_inv_def mset_append by blast
  from assms(2) have "distinct (take (started s) fs)"
    by simp
  with eq have "distinct (?d @ map snd (inflight s))"
    by (metis mset_eq_imp_distinct_iff)
  then show "distinct (map snd (inflight s))"
    by simp
  from eq have "set (?d @ map snd (inflight s)) = set (take (started s) fs)"
    by (rule mset_eq_setD)
  then show "set (map snd (inflight s)) \<subseteq> set (take (started s) fs)"
    by auto
qed

lemma partition_inv_step:
  assumes "step w N b s s'" and "partition_inv fs b s" and "sched_inv N s" and "distinct fs"
  shows "partition_inv fs b s'"
  using assms(1)
proof (cases rule: step_cases)
  case outer_enter
  from assms(2) outer_enter(3) show ?thesis by (simp add: partition_inv_def)
next
  case outer_exit
  from assms(2) outer_exit(4) show ?thesis by (simp add: partition_inv_def)
next
  case (inner_start f rest)
  let ?n = "started s"
  from assms(2) inner_start(2) have q: "drop ?n fs = f # rest"
    by (auto simp: partition_inv_def)
  then have n: "?n < length fs"
    by (metis drop_all list.distinct(1) not_le)
  from q n have f: "f = fs ! ?n" and rest: "rest = drop (Suc ?n) fs"
    by (simp_all add: Cons_nth_drop_Suc [symmetric])
  have tk: "take (Suc ?n) fs = take ?n fs @ [f]"
    using n f by (simp add: take_Suc_conv_app_nth)
  have "f \<notin> set (take ?n fs)"
  proof -
    have "distinct (take ?n fs @ drop ?n fs)"
      using assms(4) by simp
    then have "set (take ?n fs) \<inter> set (drop ?n fs) = {}"
      by (simp only: distinct_append)
    moreover have "f \<in> set (drop ?n fs)"
      using q by simp
    ultimately show ?thesis by blast
  qed
  with inflight_files_distinct(2) [OF assms(2,4)] have "f \<notin> snd ` set (inflight s)"
    by auto
  then have "f \<notin> fst ` set (activePromises s)"
    using assms(2) by (force simp: partition_inv_def)
  then have upd: "AList.update f ?n (activePromises s) = activePromises s @ [(f, ?n)]"
    by (rule update_fresh)
  have nb: "\<not> (b \<and> failed s \<noteq> [])"
    using assms(2) inner_start(2) unfolding partition_inv_def by auto
  have fields: "started s' = Suc ?n" "queue s' = drop (Suc ?n) fs"
    "activePromises s' = activePromises s @ [(f, ?n)]"
    "inflight s' = inflight s @ [(?n, f)]"
    "successful s' = successful s" "failed s' = failed s"
    using inner_start(4) rest upd by (simp_all add: start_next_def)
  from assms(2) have old: "activePromises s = map (\<lambda>p. (snd p, fst p)) (inflight s)"
    "mset (map r_file (successful s @ failed s)) + mset (map snd (inflight s))
       = mset (take ?n fs)"
    "\<forall>r \<in> set (failed s). truthy (r_error r)"
    "\<forall>r \<in> set (successful s). \<not> truthy (r_error r)"
    unfolding partition_inv_def by blast+
  have 1: "started s' \<le> length fs"
    using n fields(1) by simp
  have 2: "queue s' = drop (started s') fs"
    using fields by simp
  have 3: "b \<and> failed s' \<noteq> [] \<longrightarrow> queue s' = []"
    using fields(6) nb by metis
  have 4: "activePromises s' = map (\<lambda>p. (snd p, fst p)) (inflight s')"
    using fields(3,4) old(1) by simp
  have 5: "mset (map r_file (successful s' @ failed s')) + mset (map snd (inflight s'))
             = mset (take (started s') fs)"
    using old(2) tk unfolding fields by simp
  from 1 2 3 4 5 old(3,4) show ?thesis
    unfolding partition_inv_def fields(5,6) by blast
next
  case inner_await
  from assms(2) inner_await(4) show ?thesis by (simp add: partition_inv_def)
next
  case inner_skip
  from assms(2) inner_skip(4) show ?thesis by (simp add: partition_inv_def)
next
  case (settle waited i f r h)
  have rf: "r_file r = f"
    using settle(3) by (rule processFile_file)
  have dids: "distinct (map fst (inflight s))"
    using assms(3) by (simp add: sched_inv_def)
  have ms: "mset (map snd (filter (\<lambda>p. fst p \<noteq> i) (inflight s))) + {#f#}
              = mset (map snd (inflight s))"
    using dids settle(2) by (rule mset_remove_id)
  have del: "AList.delete f (map (\<lambda>p. (snd p, fst p)) (inflight s))
               = map (\<lambda>p. (snd p, fst p)) (filter (\<lambda>p. fst p \<noteq> i) (inflight s))"
    using dids inflight_files_distinct(1) [OF assms(2,4)] settle(2) by (rule delete_swapped)
  from assms(2) have eq: "mset (map r_file (successful s @ failed s)) + mset (map snd (inflight s))
                            = mset (take (started s) fs)"
    unfolding partition_inv_def by blast
  have res: "mset (map r_file (successful s' @ failed s'))
               = mset (map r_file (successful s @ failed s)) + {#f#}"
    using settle(4) rf by (simp add: on_settled_def Let_def)
  have st: "started s' = started s"
    and infl: "inflight s' = filter (\<lambda>p. fst p \<noteq> i) (inflight s)"
    and act: "activePromises s' = AList.delete f (activePromises s)"
    using settle(4) by (simp_all add: on_settled_def Let_def)
  have "mset (map r_file (successful s' @ failed s')) + mset (map snd (inflight s'))
          = mset (map r_file (successful s @ failed s))
            + (mset (map snd (filter (\<lambda>p. fst p \<noteq> i) (inflight s))) + {#f#})"
    unfolding res infl by simp
  also have "\<dots> = mset (take (started s) fs)"
    unfolding ms by (rule eq)
  finally have total: "mset (map r_file (successful s' @ failed s')) + mset (map snd (inflight s'))
                         = mset (take (started s') fs)"
    unfolding st .
  from assms(2) have old: "started s \<le> length fs"
    "queue s = drop (started s) fs \<or> (b \<and> queue s = [] \<and> failed s \<noteq> [])"
    "b \<and> failed s \<noteq> [] \<longrightarrow> queue s = []"
    "activePromises s = map (\<lambda>p. (snd p, fst p)) (inflight s)"
    "\<forall>r \<in> set (failed s). truthy (r_error r)"
    "\<forall>r \<in> set (successful s). \<not> truthy (r_error r)"
    unfolding partition_inv_def by blast+
  have act': "activePromises s' = map (\<lambda>p. (snd p, fst p)) (inflight s')"
    unfolding act infl old(4) by (rule del)
  have len: "started s' \<le> length fs"
    using old(1) st by simp
  have rest: "(queue s' = drop (started s') fs \<or> (b \<and> queue s' = [] \<and> failed s' \<noteq> []))
              \<and> (b \<and> failed s' \<noteq> [] \<longrightarrow> queue s' = [])
              \<and> (\<forall>r \<in> set (failed s'). truthy (r_error r))
              \<and> (\<forall>r \<in> set (successful s'). \<not> truthy (r_error r))"
  proof (cases "truthy (r_error r)")
    case True
    then have f': "failed s' = failed s @ [r]" "successful s' = successful s"
      "queue s' = (if b then [] else queue s)"
      using settle(4) by (simp_all add: on_settled_def Let_def)
    show ?thesis
    proof (cases b)
      case True
      with f' \<open>truthy (r_error r)\<close> old(5,6) show ?thesis by simp
    next
      case False
      with old(2) have "queue s = drop (started s) fs" by blast
      with False f' \<open>truthy (r_error r)\<close> old(5,6) st show ?thesis by simp
    qed
  next
    case False
    then have f': "failed s' = failed s" "successful s' = successful s @ [r]"
      "queue s' = queue s"
      using settle(4) by (simp_all add: on_settled_def Let_def)
    from old(2,3) have "(queue s = drop (started s) fs \<or> (b \<and> queue s = [] \<and> failed s \<noteq> []))
              \<and> (b \<and> failed s \<noteq> [] \<longrightarrow> queue s = [])"
      by blast
    with False old(5,6) show ?thesis
      unfolding f' st by simp
  qed
  from len rest act' total show ?thesis
    unfolding partition_inv_def by blast
next
  case (resume waited i)
  from assms(2) resume(4) show ?thesis by (simp add: partition_inv_def)
qed

lemma reachable_partition_inv:
  "reachable w options s \<Longrightarrow> distinct (files options) \<Longrightarrow>
   partition_inv (files options) (stopOnError_of options) s"
proof (induction rule: reachable.induct)
  case (entered s)
  then show ?case by (simp add: renderBatch_enter_Inr partition_inv_start)
next
  case (stepped s s')
  then show ?case
    using reachable_sched_inv [of w options s] by (auto intro: partition_inv_step)
qed

subsection \<open>The batch scheduler: validation and concurrency\<close>

lemma renderBatch_rejects_empty_files:
  "files options = [] \<Longrightarrow>
   renderBatch_start options = Inl ''No files provided for batch rendering''"
  by (simp add: renderBatch_start_def)

lemma spin_inv:
  assumes "reachable w options s" and "concurrency_of options \<le> 0"
  shows "(pc s = Outer \<or> pc s = Inner) \<and> queue s = files options \<and> queue s \<noteq> [] \<and> activePromises s = []
         \<and> inflight s = [] \<and> started s = 0 \<and> successful s = [] \<and> failed s = []"
  using assms
proof (induction rule: reachable.induct)
  case (entered s)
  then show ?case by (auto simp: renderBatch_enter_Inr renderBatch_start_def split: if_splits)
next
  case (stepped s s')
  from stepped.hyps(2) stepped.IH [OF stepped.prems] stepped.prems show ?case
    by (cases rule: step_cases) auto
qed

text \<open>
  C3, at the failing inputs: when the list of files is not empty and \<^verbatim>\<open>concurrency\<close> is zero or
  negative, \<^verbatim>\<open>renderBatch\<close> does not throw; in every state it reaches, no lifecycle has been
  started, no result has been recorded, the function has not returned, and it has a next
  step: it goes round the outer loop for ever. (An empty list of files is rejected, see
  \<open>renderBatch_rejects_empty_files\<close>.)
\<close>

theorem renderBatch_nonpositive_concurrency_spins:
  assumes "files options \<noteq> []" and "concurrency_of options \<le> 0" and "reachable w options s"
  shows "(\<exists>s0. renderBatch_start options = Inr s0) \<and> pc s \<noteq> Returned \<and> started s = 0 \<and> inflight s = []
    \<and> successful s = [] \<and> failed s = []
    \<and> (\<exists>s'. step w (concurrency_of options) (stopOnError_of options) s s')"
proof -
  note inv = spin_inv [OF assms(3,2)]
  have "\<exists>s'. step w (concurrency_of options) (stopOnError_of options) s s'"
    using inv by (auto simp: step_def successors_def split: list.splits)
  moreover have "\<exists>s0. renderBatch_start options = Inr s0"
    using assms(1) by (simp add: renderBatch_start_def)
  ultimately show ?thesis using inv by auto
qed

text \<open>C3, witness: one file and \<^verbatim>\<open>concurrency: 0\<close>, in the state in which the loop is entered.\<close>

theorem renderBatch_nonpositive_concurrency_spins_witness:
  "files spin_options \<noteq> [] \<and> concurrency_of spin_options \<le> 0 \<and>
   renderBatch_start spin_options
     = Inr \<lparr> pc = Outer, queue = [''scene.blend''], activePromises = [], inflight = [],
             successful = [], failed = [], started = 0 \<rparr> \<and>
   (\<exists>s'. step failing_world (concurrency_of spin_options) (stopOnError_of spin_options)
            \<lparr> pc = Outer, queue = [''scene.blend''], activePromises = [], inflight = [],
              successful = [], failed = [], started = 0 \<rparr> s')"
proof -
  let ?s0 = "\<lparr> pc = Outer, queue = [''scene.blend''], activePromises = [], inflight = [],
               successful = [], failed = [], started = 0 \<rparr>"
  have st: "renderBatch_start spin_options = Inr ?s0"
    by (simp add: renderBatch_start_def spin_options_def)
  have a: "files spin_options \<noteq> []" and b: "concurrency_of spin_options \<le> 0"
    by (simp_all add: spin_options_def concurrency_of_def)
  have r: "reachable failing_world spin_options ?s0"
    using st
    by (intro reachable.entered) (simp add: renderBatch_enter_Inr ensure_outputDir_def failing_world_def)
  from renderBatch_nonpositive_concurrency_spins [OF a b r] st a b show ?thesis by blast
qed

lemma inflight_within_concurrency:
  assumes "reachable w options s" and "distinct (files options)" and "0 \<le> concurrency_of options"
  shows "int (length (inflight s)) \<le> concurrency_of options"
proof -
  have "length (activePromises s) = length (inflight s)"
    using reachable_partition_inv [OF assms(1,2)] by (simp add: partition_inv_def)
  moreover have "int (length (activePromises s)) \<le> max (concurrency_of options) 0"
    using reachable_sched_inv [OF assms(1)] by (simp add: sched_inv_def)
  ultimately show ?thesis using assms(3) by simp
qed

text \<open>
  C4, at the failing input: the same file three times and \<^verbatim>\<open>concurrency: 2\<close>, the file
  existing, so that every lifecycle has to wait for the hub. The map of active promises is
  keyed by the file, so the second and the third call replace the entry of the first, the
  size of the map stays 1, and three lifecycles are in flight at once.
  (For pairwise distinct files the bound holds, see \<open>inflight_within_concurrency\<close>.)
\<close>

theorem renderBatch_duplicates_exceed_concurrency:
  "reachable failing_world dup_options overfull_state \<and> concurrency_of dup_options = 2 \<and>
   length (inflight overfull_state) = 3"
proof -
  let ?O = dup_options
  let ?s0 = "\<lparr> pc = Outer, queue = [''a.blend'', ''a.blend'', ''a.blend''], activePromises = [],
               inflight = [], successful = [], failed = [], started = 0 \<rparr>"
  let ?s2 = "\<lparr> pc = Inner, queue = [''a.blend'', ''a.blend''], activePromises = [(''a.blend'', 0)],
               inflight = [(0, ''a.blend'')], successful = [], failed = [], started = 1 \<rparr>"
  let ?s3 = "\<lparr> pc = Inner, queue = [''a.blend''], activePromises = [(''a.blend'', 1)],
               inflight = [(0, ''a.blend''), (1, ''a.blend'')], successful = [], failed = [],
               started = 2 \<rparr>"
  have N: "concurrency_of ?O = 2"
    by (simp add: concurrency_of_def dup_options_def)
  have r0: "reachable failing_world ?O ?s0"
    by (rule reachable.entered)
       (simp add: renderBatch_enter_Inr renderBatch_start_def ensure_outputDir_def
          failing_world_def dup_options_def)
  have r1: "reachable failing_world ?O (?s0\<lparr> pc := Inner \<rparr>)"
    by (rule reachable.stepped [OF r0]) (simp add: step_def successors_def)
  have r2: "reachable failing_world ?O ?s2"
    by (rule reachable.stepped [OF r1]) (simp add: step_def successors_def N start_next_def)
  have r3: "reachable failing_world ?O ?s3"
    by (rule reachable.stepped [OF r2]) (simp add: step_def successors_def N start_next_def)
  have "reachable failing_world ?O overfull_state"
    by (rule reachable.stepped [OF r3])
       (simp add: step_def successors_def N start_next_def overfull_state_def)
  with N show ?thesis by (simp add: overfull_state_def)
qed

subsection \<open>The batch scheduler: the result\<close>







end
